theory Spec2Isabelle
  imports Main "HOL-Library.Word"
begin

section \<open>Python strings and POSIX path strings\<close>

text \<open>
  A Python \<open>str\<close> or \<open>bytes\<close> object is a \<open>string\<close> (a list of 8-bit characters).
  The separator \<open>os.sep\<close> is the POSIX one.
\<close>

definition sep :: char where
  "sep = CHR ''/''"

text \<open>\<open>s.split(os.sep)\<close>: one piece more than there are separators.\<close>

fun split_sep :: "string \<Rightarrow> string list" where
  "split_sep [] = [[]]"
| "split_sep (c # cs) =
     (if c = sep then [] # split_sep cs
      else (case split_sep cs of [] \<Rightarrow> [[c]] | x # xs \<Rightarrow> (c # x) # xs))"

text \<open>\<open>os.sep.join(pieces)\<close>.\<close>

fun join_sep :: "string list \<Rightarrow> string" where
  "join_sep [] = []"
| "join_sep [x] = x"
| "join_sep (x # y # ys) = x @ sep # join_sep (y # ys)"

text \<open>\<open>s.startswith(os.sep)\<close> and \<open>s.endswith(os.sep)\<close>.\<close>

definition startswith_sep :: "string \<Rightarrow> bool" where
  "startswith_sep s = (case s of [] \<Rightarrow> False | c # _ \<Rightarrow> c = sep)"

definition endswith_sep :: "string \<Rightarrow> bool" where
  "endswith_sep s = (s \<noteq> [] \<and> last s = sep)"

text \<open>
  \<open>os.path.join(a, b)\<close> of \<open>posixpath\<close>: an absolute second component discards the
  first; otherwise one separator is put between them unless the first is empty or
  already ends with one.
\<close>

definition os_path_join :: "string \<Rightarrow> string \<Rightarrow> string" where
  "os_path_join a b =
     (if startswith_sep b then b
      else if a = [] \<or> endswith_sep a then a @ b
      else a @ sep # b)"

text \<open>\<open>os.path.basename(p)\<close>: what follows the last separator.\<close>

definition os_path_basename :: "string \<Rightarrow> string" where
  "os_path_basename p = last (split_sep p)"

text \<open>\<open>s.lstrip(chars)\<close>, \<open>s.rstrip(chars)\<close> and \<open>s.strip(chars)\<close>.\<close>

definition py_lstrip :: "string \<Rightarrow> string \<Rightarrow> string" where
  "py_lstrip chars s = dropWhile (\<lambda>c. c \<in> set chars) s"

definition py_rstrip :: "string \<Rightarrow> string \<Rightarrow> string" where
  "py_rstrip chars s = rev (dropWhile (\<lambda>c. c \<in> set chars) (rev s))"

definition py_strip :: "string \<Rightarrow> string \<Rightarrow> string" where
  "py_strip chars s = py_rstrip chars (py_lstrip chars s)"

text \<open>Decimal and hexadecimal digits, \<open>str(n)\<close> of an integer.\<close>

definition digit_char :: "nat \<Rightarrow> char" where
  "digit_char n = ''0123456789abcdef'' ! (n mod 16)"

fun nat_digits :: "nat \<Rightarrow> nat \<Rightarrow> string" where
  "nat_digits 0 n = []"
| "nat_digits (Suc fuel) n =
     (if n < 10 then [digit_char n] else nat_digits fuel (n div 10) @ [digit_char (n mod 10)])"

definition str_of_nat :: "nat \<Rightarrow> string" where
  "str_of_nat n = nat_digits (Suc n) n"

definition str_of_int :: "int \<Rightarrow> string" where
  "str_of_int i = (if i < 0 then CHR ''-'' # str_of_nat (nat (- i)) else str_of_nat (nat i))"

definition hex2 :: "char \<Rightarrow> string" where
  "hex2 c = [digit_char (of_char c div 16), digit_char (of_char c mod 16)]"

section \<open>The textual representation of a byte sequence\<close>

text \<open>
  \<open>str(data)\<close> of a \<open>bytes\<close> object is its \<open>repr\<close>: the prefix \<open>b\<close>, a quote, the
  escaped bytes, the same quote. The quote is the single quote, unless the bytes hold a
  single quote and no double quote: then it is the double quote. The quote and the
  backslash are escaped with a backslash, tab, newline and carriage return by their letter,
  every other byte outside the printable ASCII range as \<open>\xhh\<close>.
\<close>

definition squote :: char where
  "squote = CHR 0x27"

definition dquote :: char where
  "dquote = CHR 0x22"

definition backslash :: char where
  "backslash = CHR 0x5C"

definition bytes_quote :: "string \<Rightarrow> char" where
  "bytes_quote bs = (if squote \<in> set bs \<and> dquote \<notin> set bs then dquote else squote)"

definition bytes_escape :: "char \<Rightarrow> char \<Rightarrow> string" where
  "bytes_escape q c =
     (if c = q \<or> c = backslash then [backslash, c]
      else if c = CHR 0x09 then [backslash, CHR ''t'']
      else if c = CHR 0x0A then [backslash, CHR ''n'']
      else if c = CHR 0x0D then [backslash, CHR ''r'']
      else if (of_char c :: nat) < 32 \<or> 127 \<le> (of_char c :: nat) then backslash # CHR ''x'' # hex2 c
      else [c])"

definition bytes_repr :: "string \<Rightarrow> string" where
  "bytes_repr bs =
     (let q = bytes_quote bs in CHR ''b'' # q # concat (map (bytes_escape q) bs) @ [q])"

section \<open>Column values and the Value Normalizer\<close>

text \<open>
  What the engine hands back for a column: \<open>None\<close>, an \<open>int\<close>, a \<open>float\<close> (its 64 bits),
  a \<open>str\<close> or a \<open>bytes\<close> object.
\<close>

datatype sql_value =
    VNull
  | VInt int
  | VReal "64 word"
  | VText string
  | VBlob string

fun to_string :: "sql_value \<Rightarrow> sql_value" where
  "to_string (VBlob data) = VText (py_strip [squote] (py_lstrip ''b'' (bytes_repr data)))"
| "to_string data = data"

text \<open>
  The reading of the rule of the Value Normalizer that \<open>to_string\<close> is compared with: the
  textual representation without its prefix and without the pair of quotes around it,
  which is the sequence of the escaped bytes.
\<close>

definition repr_without_prefix_and_quotes :: "string \<Rightarrow> string" where
  "repr_without_prefix_and_quotes bs = concat (map (bytes_escape (bytes_quote bs)) bs)"

fun is_blob :: "sql_value \<Rightarrow> bool" where
  "is_blob (VBlob _) = True"
| "is_blob _ = False"

section \<open>Dictionaries and Records\<close>

text \<open>
  A Python \<open>dict\<close> keeps its keys in insertion order; storing under a key that is
  already there replaces the value and keeps the key's place.
\<close>

type_synonym ('k, 'v) py_dict = "('k \<times> 'v) list"

fun dict_set :: "'k \<Rightarrow> 'v \<Rightarrow> ('k, 'v) py_dict \<Rightarrow> ('k, 'v) py_dict" where
  "dict_set k v [] = [(k, v)]"
| "dict_set k v ((k', v') # d) =
     (if k = k' then (k', v) # d else (k', v') # dict_set k v d)"

text \<open>The dict built from a sequence of pairs, left to right.\<close>

definition dict_of :: "('k \<times> 'v) list \<Rightarrow> ('k, 'v) py_dict" where
  "dict_of kvs = foldl (\<lambda>d (k, v). dict_set k v d) [] kvs"

text \<open>
  Line 87: \<open>{column_name: to_string(value) for column_name, value in zip(column_names, row)}\<close>,
  and the loop of lines 84 to 88 around it.
\<close>

definition row_dict :: "sql_value list \<Rightarrow> sql_value list \<Rightarrow> (sql_value, sql_value) py_dict" where
  "row_dict column_names row =
     dict_of (map (\<lambda>(column_name, v). (column_name, to_string v)) (zip column_names row))"

definition rows_list ::
  "sql_value list \<Rightarrow> sql_value list list \<Rightarrow> (sql_value, sql_value) py_dict list" where
  "rows_list column_names rows = map (row_dict column_names) rows"

section \<open>Exceptions and printed output\<close>

datatype exn_class =
    FileNotFoundError | NotADirectoryError | IsADirectoryError | FileExistsError
  | SameFileError | IndexError | TypeError | AttributeError | DatabaseError

text \<open>An exception is its class and the text that \<open>str(e)\<close> gives.\<close>

datatype exn = Exn exn_class string

fun exn_str :: "exn \<Rightarrow> string" where
  "exn_str (Exn _ msg) = msg"

fun exn_class_of :: "exn \<Rightarrow> exn_class" where
  "exn_class_of (Exn c _) = c"

section \<open>The file system\<close>

text \<open>
  A node is a regular file with its bytes, or a directory. The file system maps a
  resolved path, the list of its components from the root, to its node. A path string is
  resolved against the working directory unless it starts with the separator; empty
  components and \<open>.\<close> are dropped. Symbolic links, \<open>..\<close> and permissions are not
  modelled: an operation fails only for what the tree itself decides (a missing node, a
  file where a directory is needed, a directory where a file is needed). The text of an
  operating-system error is the path it is about.

  The state of a run is the file system, the working directory, the lines printed so far,
  and the statements that reached the engine through \<open>conn.execute\<close> (a history, kept to
  speak about what was issued).
\<close>

datatype node = File string | Dir

type_synonym fs = "string list \<rightharpoonup> node"

record world =
  files :: fs
  cwd :: "string list"
  stdout :: "string list"
  statements :: "string list"

definition print :: "string \<Rightarrow> world \<Rightarrow> world" where
  "print line w = w\<lparr>stdout := stdout w @ [line]\<rparr>"

definition components :: "string \<Rightarrow> string list" where
  "components p = filter (\<lambda>c. c \<noteq> [] \<and> c \<noteq> ''.'') (split_sep p)"

definition resolve :: "world \<Rightarrow> string \<Rightarrow> string list" where
  "resolve w p = (if startswith_sep p then [] else cwd w) @ components p"

text \<open>A path that ends with a separator or with \<open>.\<close> can only name a directory.\<close>

definition needs_dir :: "string \<Rightarrow> bool" where
  "needs_dir p = (last (split_sep p) = [] \<or> last (split_sep p) = ''.'')"

definition stat :: "world \<Rightarrow> string \<Rightarrow> node option" where
  "stat w p =
     (if p = [] then None
      else (case files w (resolve w p) of
              Some (File bs) \<Rightarrow> if needs_dir p then None else Some (File bs)
            | r \<Rightarrow> r))"

definition os_path_isfile :: "world \<Rightarrow> string \<Rightarrow> bool" where
  "os_path_isfile w p = (case stat w p of Some (File _) \<Rightarrow> True | _ \<Rightarrow> False)"

definition os_path_isdir :: "world \<Rightarrow> string \<Rightarrow> bool" where
  "os_path_isdir w p = (case stat w p of Some Dir \<Rightarrow> True | _ \<Rightarrow> False)"

definition os_path_exists :: "world \<Rightarrow> string \<Rightarrow> bool" where
  "os_path_exists w p = (stat w p \<noteq> None)"

text \<open>
  \<open>os.path.getsize\<close>: the program asks it of regular files only; the size the system
  reports for a directory is not modelled.
\<close>

definition os_path_getsize :: "world \<Rightarrow> string \<Rightarrow> exn + nat" where
  "os_path_getsize w p =
     (case stat w p of
        Some (File bs) \<Rightarrow> Inr (length bs)
      | Some Dir \<Rightarrow> Inl (Exn IsADirectoryError p)
      | None \<Rightarrow> Inl (Exn FileNotFoundError p))"

text \<open>\<open>open(p, 'rb')\<close> followed by reading: the bytes of the file.\<close>

definition read_file :: "world \<Rightarrow> string \<Rightarrow> exn + string" where
  "read_file w p =
     (case stat w p of
        Some (File bs) \<Rightarrow> Inr bs
      | Some Dir \<Rightarrow> Inl (Exn IsADirectoryError p)
      | None \<Rightarrow> Inl (Exn FileNotFoundError p))"

text \<open>
  Opening for writing (\<open>"w+"\<close>, \<open>'wb'\<close>): the parent must be a directory and the path
  must not be one; the file is created or truncated. The handle is the resolved path.
\<close>

definition open_w :: "string \<Rightarrow> world \<Rightarrow> (exn + string list) \<times> world" where
  "open_w p w =
     (if p = [] then (Inl (Exn FileNotFoundError p), w)
      else if needs_dir p then (Inl (Exn IsADirectoryError p), w)
      else (let k = resolve w p in
            case files w (butlast k) of
              None \<Rightarrow> (Inl (Exn FileNotFoundError p), w)
            | Some (File _) \<Rightarrow> (Inl (Exn NotADirectoryError p), w)
            | Some Dir \<Rightarrow>
                (case files w k of
                   Some Dir \<Rightarrow> (Inl (Exn IsADirectoryError p), w)
                 | _ \<Rightarrow> (Inr k, w\<lparr>files := (files w)(k \<mapsto> File [])\<rparr>))))"

definition file_write :: "string list \<Rightarrow> string \<Rightarrow> world \<Rightarrow> world" where
  "file_write k s w =
     w\<lparr>files := (files w)(k \<mapsto> File ((case files w k of Some (File c) \<Rightarrow> c | _ \<Rightarrow> []) @ s))\<rparr>"

text \<open>
  \<open>os.makedirs(p, exist_ok=True)\<close>: walks the components from the root, creates the
  missing directories, and fails at a component that is a regular file.
\<close>

fun mkdirs :: "string \<Rightarrow> string list \<Rightarrow> string list \<Rightarrow> fs \<Rightarrow> exn option \<times> fs" where
  "mkdirs p pre [] t = (None, t)"
| "mkdirs p pre (c # cs) t =
     (case t (pre @ [c]) of
        Some (File _) \<Rightarrow>
          (Some (Exn (if cs = [] then FileExistsError else NotADirectoryError) p), t)
      | Some Dir \<Rightarrow> mkdirs p (pre @ [c]) cs t
      | None \<Rightarrow> mkdirs p (pre @ [c]) cs (t(pre @ [c] \<mapsto> Dir)))"

definition os_makedirs :: "string \<Rightarrow> world \<Rightarrow> (exn + unit) \<times> world" where
  "os_makedirs p w =
     (if p = [] then (Inl (Exn FileNotFoundError p), w)
      else (case mkdirs p [] (resolve w p) (files w) of
              (Some e, t) \<Rightarrow> (Inl e, w\<lparr>files := t\<rparr>)
            | (None, t) \<Rightarrow> (Inr (), w\<lparr>files := t\<rparr>)))"

text \<open>\<open>os.remove(p)\<close>.\<close>

definition os_remove :: "string \<Rightarrow> world \<Rightarrow> (exn + unit) \<times> world" where
  "os_remove p w =
     (case stat w p of
        Some (File _) \<Rightarrow> (Inr (), w\<lparr>files := (files w)(resolve w p := None)\<rparr>)
      | Some Dir \<Rightarrow> (Inl (Exn IsADirectoryError p), w)
      | None \<Rightarrow> (Inl (Exn FileNotFoundError p), w))"

text \<open>
  \<open>shutil.copy(src, dst)\<close>: a destination that is a directory stands for the file of the
  source's name inside it; copying a file onto itself is refused; the source is opened
  before the destination.
\<close>

definition samefile :: "world \<Rightarrow> string \<Rightarrow> string \<Rightarrow> bool" where
  "samefile w a b = (stat w a \<noteq> None \<and> stat w b \<noteq> None \<and> resolve w a = resolve w b)"

definition shutil_copy :: "string \<Rightarrow> string \<Rightarrow> world \<Rightarrow> (exn + unit) \<times> world" where
  "shutil_copy src dst w =
     (let dst' = (if os_path_isdir w dst then os_path_join dst (os_path_basename src) else dst) in
      if samefile w src dst' then (Inl (Exn SameFileError src), w)
      else (case read_file w src of
              Inl e \<Rightarrow> (Inl e, w)
            | Inr bs \<Rightarrow>
                (case open_w dst' w of
                   (Inl e, w') \<Rightarrow> (Inl e, w')
                 | (Inr k, w') \<Rightarrow> (Inr (), file_write k bs w'))))"

section \<open>JSON serialization\<close>

text \<open>
  \<open>json.dumps(entry)\<close> with its defaults: non-ASCII and control characters escaped,
  items separated by a comma and a space, key and value by a colon and a space. A
  \<open>bytes\<close> object is not serializable, neither as a value nor as a key. How a float is
  printed is a parameter \<open>float_repr\<close> of the model.
\<close>

definition json_escape :: "char \<Rightarrow> string" where
  "json_escape c =
     (if c = dquote then [backslash, dquote]
      else if c = backslash then [backslash, backslash]
      else if c = CHR 0x0A then [backslash, CHR ''n'']
      else if c = CHR 0x0D then [backslash, CHR ''r'']
      else if c = CHR 0x09 then [backslash, CHR ''t'']
      else if c = CHR 0x08 then [backslash, CHR ''b'']
      else if c = CHR 0x0C then [backslash, CHR ''f'']
      else if (of_char c :: nat) < 32 \<or> 126 < (of_char c :: nat)
        then backslash # CHR ''u'' # CHR ''0'' # CHR ''0'' # hex2 c
      else [c])"

definition json_string :: "string \<Rightarrow> string" where
  "json_string s = dquote # concat (map json_escape s) @ [dquote]"

fun json_value :: "(64 word \<Rightarrow> string) \<Rightarrow> sql_value \<Rightarrow> exn + string" where
  "json_value float_repr VNull = Inr ''null''"
| "json_value float_repr (VInt i) = Inr (str_of_int i)"
| "json_value float_repr (VReal x) = Inr (float_repr x)"
| "json_value float_repr (VText s) = Inr (json_string s)"
| "json_value float_repr (VBlob b) =
     Inl (Exn TypeError ''Object of type bytes is not JSON serializable'')"

fun json_key :: "(64 word \<Rightarrow> string) \<Rightarrow> sql_value \<Rightarrow> exn + string" where
  "json_key float_repr VNull = Inr (json_string ''null'')"
| "json_key float_repr (VInt i) = Inr (json_string (str_of_int i))"
| "json_key float_repr (VReal x) = Inr (json_string (float_repr x))"
| "json_key float_repr (VText s) = Inr (json_string s)"
| "json_key float_repr (VBlob b) =
     Inl (Exn TypeError ''keys must be str, int, float, bool or None, not bytes'')"

fun json_items ::
  "(64 word \<Rightarrow> string) \<Rightarrow> (sql_value, sql_value) py_dict \<Rightarrow> exn + string list" where
  "json_items float_repr [] = Inr []"
| "json_items float_repr ((k, v) # d) =
     (case json_key float_repr k of
        Inl e \<Rightarrow> Inl e
      | Inr ks \<Rightarrow>
          (case json_value float_repr v of
             Inl e \<Rightarrow> Inl e
           | Inr vs \<Rightarrow>
               (case json_items float_repr d of
                  Inl e \<Rightarrow> Inl e
                | Inr rest \<Rightarrow> Inr ((ks @ '': '' @ vs) # rest))))"

fun join_comma :: "string list \<Rightarrow> string" where
  "join_comma [] = []"
| "join_comma [x] = x"
| "join_comma (x # y # ys) = x @ '', '' @ join_comma (y # ys)"

definition json_dumps ::
  "(64 word \<Rightarrow> string) \<Rightarrow> (sql_value, sql_value) py_dict \<Rightarrow> exn + string" where
  "json_dumps float_repr entry =
     (case json_items float_repr entry of
        Inl e \<Rightarrow> Inl e
      | Inr items \<Rightarrow> Inr (''{'' @ join_comma items @ ''}''))"

section \<open>The database engine\<close>

text \<open>
  The engine is outside the program, so it is a parameter. A cursor answers a statement
  with the rows of its result or with an exception; statements sent through the cursor
  only read. A connection runs a statement through \<open>conn.execute\<close>, which may rewrite
  files and may fail, hands out a cursor, and can be closed. \<open>sqlite3.connect\<close> gives
  the connection for a path or fails.
\<close>

record cursor =
  cur_execute :: "string \<Rightarrow> exn + sql_value list list"
  cur_close :: "exn option"

record connection =
  conn_execute :: "string \<Rightarrow> fs \<Rightarrow> exn option \<times> fs"
  conn_cursor :: "exn + cursor"
  conn_close :: "exn option"

type_synonym engine = "string \<Rightarrow> world \<Rightarrow> exn + connection"

text \<open>What \<open>str.format\<close> puts into an f-string for a value.\<close>

fun py_format :: "(64 word \<Rightarrow> string) \<Rightarrow> sql_value \<Rightarrow> string" where
  "py_format float_repr VNull = ''None''"
| "py_format float_repr (VInt i) = str_of_int i"
| "py_format float_repr (VReal x) = float_repr x"
| "py_format float_repr (VText s) = s"
| "py_format float_repr (VBlob b) = bytes_repr b"

text \<open>\<open>[f(x) for x in xs]\<close> where \<open>f\<close> may raise: the first exception ends the comprehension.\<close>

fun map_exn :: "('a \<Rightarrow> exn + 'b) \<Rightarrow> 'a list \<Rightarrow> exn + 'b list" where
  "map_exn f [] = Inr []"
| "map_exn f (x # xs) =
     (case f x of
        Inl e \<Rightarrow> Inl e
      | Inr y \<Rightarrow> (case map_exn f xs of Inl e \<Rightarrow> Inl e | Inr ys \<Rightarrow> Inr (y # ys)))"

text \<open>\<open>row[i]\<close> for a constant index \<open>i\<close>.\<close>

definition py_index :: "'a list \<Rightarrow> nat \<Rightarrow> exn + 'a" where
  "py_index xs i =
     (if i < length xs then Inr (xs ! i) else Inl (Exn IndexError ''tuple index out of range''))"

section \<open>The program\<close>

subsection \<open>is_sqlite3\<close>

definition magic :: string where
  "magic = ''SQLite format 3'' @ [CHR 0x00]"

definition is_sqlite3 :: "string \<Rightarrow> world \<Rightarrow> (exn + bool) \<times> world" where
  "is_sqlite3 filename w =
     (if \<not> os_path_isfile w filename then
        (Inr False, print (''[ERROR] '' @ filename @ '' is not a file'') w)
      else (case os_path_getsize w filename of
              Inl e \<Rightarrow> (Inl e, w)
            | Inr nbytes \<Rightarrow>
                if nbytes < 100 then
                  (Inr False,
                   print (''[ERROR] '' @ filename @ '' is too small to be a SQLite3 database'') w)
                else (case read_file w filename of
                        Inl e \<Rightarrow> (Inl e, w)
                      | Inr bs \<Rightarrow>
                          (let header = take 16 bs;
                               result_bool = (header = magic)
                           in (Inr result_bool,
                               if \<not> result_bool then
                                 print (''[ERROR] '' @ filename @ '' has the wrong header: ''
                                        @ bytes_repr (take 15 header)) w
                               else w)))))"

subsection \<open>create_folder_if_not_exists\<close>

definition create_folder_if_not_exists :: "string \<Rightarrow> world \<Rightarrow> world" where
  "create_folder_if_not_exists folder_path w =
     (case os_makedirs folder_path w of
        (Inr _, w') \<Rightarrow> w'
      | (Inl e, w') \<Rightarrow>
          print (''[EXCEPTION RAISED] An error occurred while creating the folder ''
                 @ [squote] @ folder_path @ [squote] @ '': '' @ exn_str e) w')"

subsection \<open>write_dicts_to_jsonl\<close>

text \<open>The loop of lines 46 to 48 on the open file \<open>f\<close>.\<close>

fun write_entries ::
  "(64 word \<Rightarrow> string) \<Rightarrow> (sql_value, sql_value) py_dict list \<Rightarrow> string list \<Rightarrow> world
     \<Rightarrow> (exn + unit) \<times> world" where
  "write_entries float_repr [] f w = (Inr (), w)"
| "write_entries float_repr (entry # rest) f w =
     (case json_dumps float_repr entry of
        Inl e \<Rightarrow> (Inl e, w)
      | Inr json_line \<Rightarrow> write_entries float_repr rest f (file_write f (json_line @ [CHR 0x0A]) w))"

definition write_dicts_to_jsonl ::
  "(64 word \<Rightarrow> string) \<Rightarrow> (sql_value, sql_value) py_dict list \<Rightarrow> string \<Rightarrow> world \<Rightarrow> world" where
  "write_dicts_to_jsonl float_repr dict_list output_file w =
     (let output_folder = join_sep (butlast (split_sep output_file));
          w1 = create_folder_if_not_exists output_folder w;
          handler = (\<lambda>e w'. print (''[EXCEPTION RAISED] An error occurred when writing to the file ''
                                   @ [squote] @ output_file @ [squote] @ '': '' @ exn_str e) w')
      in case open_w output_file w1 of
           (Inl e, w2) \<Rightarrow> handler e w2
         | (Inr f, w2) \<Rightarrow>
             (case write_entries float_repr dict_list f w2 of
                (Inl e, w3) \<Rightarrow> handler e w3
              | (Inr _, w3) \<Rightarrow> w3))"

subsection \<open>process_table\<close>

definition table_info_sql :: "(64 word \<Rightarrow> string) \<Rightarrow> sql_value \<Rightarrow> string" where
  "table_info_sql float_repr table_name = ''PRAGMA table_info('' @ py_format float_repr table_name @ '');''"

definition select_all_sql :: "(64 word \<Rightarrow> string) \<Rightarrow> sql_value \<Rightarrow> string" where
  "select_all_sql float_repr table_name = ''SELECT * FROM '' @ py_format float_repr table_name @ '';''"

text \<open>Line 82: \<open>os.path.join\<close> accepts a \<open>str\<close> only.\<close>

fun output_file_of :: "string \<Rightarrow> sql_value \<Rightarrow> exn + string" where
  "output_file_of output_dir (VText table_name) = Inr (os_path_join output_dir table_name @ ''.jsonl'')"
| "output_file_of output_dir _ =
     Inl (Exn TypeError ''join() argument must be str, bytes, or os.PathLike object'')"

definition process_table ::
  "(64 word \<Rightarrow> string) \<Rightarrow> string \<Rightarrow> sql_value \<Rightarrow> cursor \<Rightarrow> world \<Rightarrow> (exn + unit) \<times> world" where
  "process_table float_repr output_dir table_name cursor w =
     (case cur_execute cursor (table_info_sql float_repr table_name) of
        Inl e \<Rightarrow> (Inl e, w)
      | Inr columns_info \<Rightarrow>
          (case map_exn (\<lambda>column. py_index column 1) columns_info of
             Inl e \<Rightarrow> (Inl e, w)
           | Inr column_names \<Rightarrow>
               (case cur_execute cursor (select_all_sql float_repr table_name) of
                  Inl e \<Rightarrow> (Inl e, w)
                | Inr rows \<Rightarrow>
                    (case output_file_of output_dir table_name of
                       Inl e \<Rightarrow> (Inl e, w)
                     | Inr output_file \<Rightarrow>
                         (Inr (), write_dicts_to_jsonl float_repr
                                    (rows_list column_names rows) output_file w)))))"

subsection \<open>get_tables\<close>

definition tables_sql :: string where
  "tables_sql = ''SELECT name FROM sqlite_master WHERE type='' @ [squote] @ ''table'' @ [squote] @ '';''"

definition get_tables :: "cursor \<Rightarrow> exn + sql_value list" where
  "get_tables cursor =
     (case cur_execute cursor tables_sql of
        Inl e \<Rightarrow> Inl e
      | Inr rows \<Rightarrow> map_exn (\<lambda>row. py_index row 0) rows)"

subsection \<open>apply_wal\<close>

text \<open>\<open>conn.execute(sql)\<close>: the engine acts on the files; the statement is recorded.\<close>

definition execute :: "connection \<Rightarrow> string \<Rightarrow> world \<Rightarrow> (exn + unit) \<times> world" where
  "execute conn sql w =
     (case conn_execute conn sql (files w) of
        (r, t) \<Rightarrow>
          ((case r of Some e \<Rightarrow> Inl e | None \<Rightarrow> Inr ()),
           w\<lparr>files := t, statements := statements w @ [sql]\<rparr>))"

definition checkpoint_sql :: string where
  "checkpoint_sql = ''PRAGMA wal_checkpoint(FULL);''"

definition vacuum_sql :: string where
  "vacuum_sql = ''VACUUM;''"

text \<open>The body of the \<open>try\<close> of lines 117 to 119 and the handler of lines 121 to 123.\<close>

definition apply_wal_try :: "connection \<Rightarrow> string \<Rightarrow> world \<Rightarrow> (exn + unit) \<times> world" where
  "apply_wal_try conn backup_path w =
     (case execute conn checkpoint_sql w of
        (Inl e, w1) \<Rightarrow> (Inl e, w1)
      | (Inr _, w1) \<Rightarrow>
          (case execute conn vacuum_sql w1 of
             (Inl e, w2) \<Rightarrow> (Inl e, w2)
           | (Inr _, w2) \<Rightarrow> os_remove backup_path w2))"

definition apply_wal_except ::
  "string \<Rightarrow> string \<Rightarrow> exn \<Rightarrow> world \<Rightarrow> (exn + unit) \<times> world" where
  "apply_wal_except input_filename backup_path e w =
     (case shutil_copy backup_path input_filename w of
        (Inl e', w1) \<Rightarrow> (Inl e', w1)
      | (Inr _, w1) \<Rightarrow>
          (case os_remove backup_path w1 of
             (Inl e', w2) \<Rightarrow> (Inl e', w2)
           | (Inr _, w2) \<Rightarrow>
               (Inr (), print (''[EXCEPTION RAISED] Applying WAL: '' @ exn_str e) w2)))"

definition apply_wal :: "connection \<Rightarrow> string \<Rightarrow> world \<Rightarrow> (exn + unit) \<times> world" where
  "apply_wal conn input_filename w =
     (let wal_name = input_filename @ ''-wal'';
          w1 = (if \<not> os_path_exists w wal_name
                then print (''[INFO] No WAL applied to '' @ input_filename) w else w);
          backup_path = input_filename @ ''.backup''
      in case shutil_copy input_filename backup_path w1 of
           (Inl e, w2) \<Rightarrow> (Inl e, w2)
         | (Inr _, w2) \<Rightarrow>
             (let w3 = print (''[INFO] A backup has been done: '' @ backup_path @ ''.'') w2
              in case apply_wal_try conn backup_path w3 of
                   (Inl e, w4) \<Rightarrow> apply_wal_except input_filename backup_path e w4
                 | (Inr _, w4) \<Rightarrow> (Inr (), w4)))"

subsection \<open>process_file\<close>

text \<open>The loop of lines 150 and 151.\<close>

fun process_tables ::
  "(64 word \<Rightarrow> string) \<Rightarrow> string \<Rightarrow> sql_value list \<Rightarrow> cursor \<Rightarrow> world \<Rightarrow> (exn + unit) \<times> world" where
  "process_tables float_repr output_dir [] cursor w = (Inr (), w)"
| "process_tables float_repr output_dir (table # tables) cursor w =
     (case process_table float_repr output_dir table cursor w of
        (Inl e, w') \<Rightarrow> (Inl e, w')
      | (Inr _, w') \<Rightarrow> process_tables float_repr output_dir tables cursor w')"

text \<open>
  The handler of lines 155 to 158. \<open>conn\<close> and \<open>cursor\<close> start as the empty string
  (lines 130 and 131), here \<open>None\<close>, and a \<open>str\<close> has no \<open>close\<close>.
\<close>

definition no_close :: exn where
  "no_close = Exn AttributeError (([squote] @ ''str'' @ [squote]) @ '' object has no attribute ''
                                  @ ([squote] @ ''close'' @ [squote]))"

definition process_file_except ::
  "connection option \<Rightarrow> cursor option \<Rightarrow> exn \<Rightarrow> world \<Rightarrow> (exn + unit) \<times> world" where
  "process_file_except conn cursor e w =
     (let w1 = print (''[EXCEPTION RAISED] '' @ exn_str e) w
      in case cursor of
           None \<Rightarrow> (Inl no_close, w1)
         | Some cur \<Rightarrow>
             (case cur_close cur of
                Some e' \<Rightarrow> (Inl e', w1)
              | None \<Rightarrow>
                  (case conn of
                     None \<Rightarrow> (Inl no_close, w1)
                   | Some c \<Rightarrow>
                       (case conn_close c of
                          Some e' \<Rightarrow> (Inl e', w1)
                        | None \<Rightarrow> (Inr (), w1)))))"

text \<open>What follows the cursor in the \<open>try\<close>: lines 144 to 151.\<close>

definition process_file_body ::
  "(64 word \<Rightarrow> string) \<Rightarrow> connection \<Rightarrow> cursor \<Rightarrow> string \<Rightarrow> string \<Rightarrow> world
     \<Rightarrow> (exn + unit) \<times> world" where
  "process_file_body float_repr conn cursor input_filename output_dir w =
     (case apply_wal conn input_filename w of
        (Inl e, w1) \<Rightarrow> (Inl e, w1)
      | (Inr _, w1) \<Rightarrow>
          (case get_tables cursor of
             Inl e \<Rightarrow> (Inl e, w1)
           | Inr tables \<Rightarrow> process_tables float_repr output_dir tables cursor w1))"

definition process_file ::
  "(64 word \<Rightarrow> string) \<Rightarrow> engine \<Rightarrow> string \<Rightarrow> string \<Rightarrow> bool \<Rightarrow> world \<Rightarrow> (exn + unit) \<times> world" where
  "process_file float_repr sqlite3_connect input_filename output_dir already_checked w =
     (let w0 = print (''[INFO] Processing '' @ input_filename @ ''...'') w
      in case is_sqlite3 input_filename w0 of
           (Inl e, w1) \<Rightarrow> (Inl e, w1)
         | (Inr ok, w1) \<Rightarrow>
             if ok \<or> already_checked then
               (let output_dir' = os_path_join output_dir input_filename;
                    w2 = create_folder_if_not_exists output_dir' w1
                in case sqlite3_connect input_filename w2 of
                     Inl e \<Rightarrow> process_file_except None None e w2
                   | Inr conn \<Rightarrow>
                       (case conn_cursor conn of
                          Inl e \<Rightarrow> process_file_except (Some conn) None e w2
                        | Inr cursor \<Rightarrow>
                            (case process_file_body float_repr conn cursor input_filename
                                    output_dir' w2 of
                               (Inl e, w3) \<Rightarrow> process_file_except (Some conn) (Some cursor) e w3
                             | (Inr _, w3) \<Rightarrow> (Inr (), w3))))
             else (Inr (), print (''[ERROR] '' @ input_filename @ '' is not a sqlite3 file'') w1))"

section \<open>The catalog of the engine\<close>

text \<open>
  The engine keeps one row of \<open>sqlite_master\<close> for each table, index, view and trigger,
  with its kind in the column \<open>type\<close>. The tables the engine creates for itself
  (\<open>sqlite_sequence\<close>, \<open>sqlite_stat1\<close>) are rows of kind \<open>table\<close> too; their names
  start with \<open>sqlite_\<close>, a prefix reserved for them.

  The engine answers a statement on this table by evaluating its text. The model evaluates
  two forms: \<open>SELECT name FROM sqlite_master;\<close> gives the column \<open>name\<close> of every row,
  and \<open>SELECT name FROM sqlite_master WHERE type='kind';\<close> that of the rows whose
  \<open>type\<close> is the literal between the quotes, both in the order of the catalog. Any other
  text is a syntax error.
\<close>

record schema_entry =
  entry_type :: string
  entry_name :: string

text \<open>What is left of \<open>s\<close> behind the prefix \<open>p\<close>, if \<open>s\<close> starts with it.\<close>

fun strip_prefix :: "string \<Rightarrow> string \<Rightarrow> string option" where
  "strip_prefix [] s = Some s"
| "strip_prefix (p # ps) [] = None"
| "strip_prefix (p # ps) (c # cs) = (if p = c then strip_prefix ps cs else None)"

definition names_of :: "schema_entry list \<Rightarrow> sql_value list list" where
  "names_of entries = map (\<lambda>e. [VText (entry_name e)]) entries"

definition select_name_from_master :: "schema_entry list \<Rightarrow> string \<Rightarrow> exn + sql_value list list" where
  "select_name_from_master catalog sql =
     (case strip_prefix ''SELECT name FROM sqlite_master'' sql of
        None \<Rightarrow> Inl (Exn DatabaseError ''syntax error'')
      | Some rest \<Rightarrow>
          if rest = '';'' then Inr (names_of catalog)
          else (case strip_prefix ('' WHERE type='' @ [squote]) rest of
                  None \<Rightarrow> Inl (Exn DatabaseError ''syntax error'')
                | Some literal \<Rightarrow>
                    (let kind = takeWhile (\<lambda>c. c \<noteq> squote) literal
                     in if dropWhile (\<lambda>c. c \<noteq> squote) literal = [squote] @ '';''
                        then Inr (names_of (filter (\<lambda>e. entry_type e = kind) catalog))
                        else Inl (Exn DatabaseError ''syntax error''))))"

text \<open>
  A cursor reads a catalog when it answers every statement on \<open>sqlite_master\<close> as the
  engine evaluates it on that catalog.
\<close>

definition reads_catalog :: "cursor \<Rightarrow> schema_entry list \<Rightarrow> bool" where
  "reads_catalog cursor catalog =
     (\<forall>sql. strip_prefix ''SELECT name FROM sqlite_master'' sql \<noteq> None \<longrightarrow>
            cur_execute cursor sql = select_name_from_master catalog sql)"

definition is_system_name :: "string \<Rightarrow> bool" where
  "is_system_name name = (take 7 name = ''sqlite_'')"

text \<open>
  The names the contract of the Table Enumerator speaks of: the tables of the catalog
  that are not the engine's own.
\<close>

definition user_table_names :: "schema_entry list \<Rightarrow> string list" where
  "user_table_names catalog =
     map entry_name
       (filter (\<lambda>e. entry_type e = ''table'' \<and> \<not> is_system_name (entry_name e)) catalog)"

section \<open>Conditions on the file system and on the engine\<close>

text \<open>The resolved path of the directory that holds the last piece of \<open>p\<close>.\<close>

definition dirpart :: "world \<Rightarrow> string \<Rightarrow> string list" where
  "dirpart w p =
     (if startswith_sep p then [] else cwd w)
     @ filter (\<lambda>c. c \<noteq> [] \<and> c \<noteq> ''.'') (butlast (split_sep p))"

text \<open>
  A well-formed file system: the root and the working directory are directories, and
  whatever exists lies in a directory.
\<close>

definition wf_world :: "world \<Rightarrow> bool" where
  "wf_world w =
     (files w [] = Some Dir \<and> files w (cwd w) = Some Dir \<and>
      (\<forall>k n. files w (k @ [n]) \<noteq> None \<longrightarrow> files w k = Some Dir))"

text \<open>
  What is asked of the engine where a property depends on it: no statement touches the
  node at \<open>k\<close> (the backup file), and no statement makes or removes a directory.
\<close>

definition leaves_alone :: "connection \<Rightarrow> string list \<Rightarrow> bool" where
  "leaves_alone conn k = (\<forall>sql t. snd (conn_execute conn sql t) k = t k)"

definition keeps_directories :: "connection \<Rightarrow> bool" where
  "keeps_directories conn =
     (\<forall>sql t k. (snd (conn_execute conn sql t) k = Some Dir) = (t k = Some Dir))"

text \<open>
  A failure of the checkpoint and compaction step on the file system \<open>t\<close>: the
  checkpoint fails, or it succeeds and the compaction fails on what it leaves.
\<close>

definition wal_step_fails :: "connection \<Rightarrow> fs \<Rightarrow> bool" where
  "wal_step_fails conn t =
     (case conn_execute conn checkpoint_sql t of
        (Some e, t') \<Rightarrow> True
      | (None, t') \<Rightarrow> fst (conn_execute conn vacuum_sql t') \<noteq> None)"

text \<open>
  The text that the loop of \<open>write_dicts_to_jsonl\<close> writes: one line for each entry, up
  to the first entry that cannot be serialized.
\<close>

fun written :: "(64 word \<Rightarrow> string) \<Rightarrow> (sql_value, sql_value) py_dict list \<Rightarrow> string" where
  "written float_repr [] = []"
| "written float_repr (entry # rest) =
     (case json_dumps float_repr entry of
        Inl e \<Rightarrow> []
      | Inr json_line \<Rightarrow> json_line @ [CHR 0x0A] @ written float_repr rest)"

text \<open>
  When \<open>open_w\<close> succeeds: the path can name a file, its parent is a directory and the
  path itself is not one.
\<close>

definition can_open :: "world \<Rightarrow> string \<Rightarrow> bool" where
  "can_open w p =
     (\<not> needs_dir p \<and> files w (butlast (resolve w p)) = Some Dir \<and>
      files w (resolve w p) \<noteq> Some Dir)"

definition is_file :: "node option \<Rightarrow> bool" where
  "is_file n = (case n of Some (File _) \<Rightarrow> True | _ \<Rightarrow> False)"

section \<open>Example databases and file systems\<close>

definition example_catalog :: "schema_entry list" where
  "example_catalog =
     [\<lparr>entry_type = ''table'', entry_name = ''users''\<rparr>,
      \<lparr>entry_type = ''index'', entry_name = ''users_by_name''\<rparr>,
      \<lparr>entry_type = ''table'', entry_name = ''sqlite_sequence''\<rparr>,
      \<lparr>entry_type = ''view'', entry_name = ''recent_users''\<rparr>]"

definition example_cursor :: cursor where
  "example_cursor =
     \<lparr>cur_execute =
        (\<lambda>sql. if sql = ''PRAGMA table_info(users);''
                 then Inr [[VInt 0, VText ''id''], [VInt 1, VText ''name'']]
               else if sql = ''SELECT * FROM users;''
                 then Inr [[VInt 1, VText ''ada'']]
               else if sql = ''PRAGMA table_info(sqlite_sequence);''
                 then Inr [[VInt 0, VText ''name''], [VInt 1, VText ''seq'']]
               else if sql = ''SELECT * FROM sqlite_sequence;''
                 then Inr []
               else select_name_from_master example_catalog sql),
      cur_close = None\<rparr>"

definition example_db :: string where
  "example_db = magic @ replicate 84 (CHR 0x00)"

definition example_world :: world where
  "example_world =
     \<lparr>files = [[] \<mapsto> Dir, [''home''] \<mapsto> Dir, [''home'', ''app.db''] \<mapsto> File example_db],
      cwd = [''home''], stdout = [], statements = []\<rparr>"

text \<open>The same, with a directory where the backup of the database is to go.\<close>

definition backup_dir_world :: world where
  "backup_dir_world =
     \<lparr>files = [[] \<mapsto> Dir, [''home''] \<mapsto> Dir, [''home'', ''app.db''] \<mapsto> File example_db,
               [''home'', ''app.db.backup''] \<mapsto> Dir],
      cwd = [''home''], stdout = [], statements = []\<rparr>"

text \<open>The same, with an output file left by an earlier export.\<close>

definition stale_world :: world where
  "stale_world =
     \<lparr>files = [[] \<mapsto> Dir, [''home''] \<mapsto> Dir, [''home'', ''app.db''] \<mapsto> File example_db,
               [''home'', ''out''] \<mapsto> Dir,
               [''home'', ''out'', ''users.jsonl''] \<mapsto> File ''an old line that is no JSON''],
      cwd = [''home''], stdout = [], statements = []\<rparr>"

definition blob_with_quote :: string where
  "blob_with_quote = ''it'' @ [squote] @ ''s''"

text \<open>A connection whose statements succeed and change nothing.\<close>

definition example_conn :: connection where
  "example_conn =
     \<lparr>conn_execute = (\<lambda>sql t. (None, t)), conn_cursor = Inr example_cursor, conn_close = None\<rparr>"

text \<open>A connection whose compaction rewrites the database file.\<close>

definition compacted_db :: string where
  "compacted_db = magic @ replicate 84 (CHR 0x01)"

definition compacting_conn :: connection where
  "compacting_conn =
     \<lparr>conn_execute =
        (\<lambda>sql t. if sql = vacuum_sql \<and> is_file (t [''home'', ''app.db''])
                    then (None, t([''home'', ''app.db''] \<mapsto> File compacted_db))
                  else (None, t)),
      conn_cursor = Inr example_cursor, conn_close = None\<rparr>"

text \<open>A connection whose compaction damages the database file and then fails.\<close>

definition failing_conn :: connection where
  "failing_conn =
     \<lparr>conn_execute =
        (\<lambda>sql t. if sql = vacuum_sql \<and> is_file (t [''home'', ''app.db''])
                    then (Some (Exn DatabaseError ''database or disk is full''),
                          t([''home'', ''app.db''] \<mapsto> File ''damaged''))
                  else (None, t)),
      conn_cursor = Inr example_cursor, conn_close = None\<rparr>"

definition no_floats :: "64 word \<Rightarrow> string" where
  "no_floats x = []"

section \<open>Properties\<close>

subsection \<open>Format Validator\<close>

text \<open>
  Claim C1. \<open>is_sqlite3\<close> raises nothing and its verdict is positive exactly when the
  path names a regular file of at least 100 bytes whose first 16 bytes are the magic
  signature; for a path that is not a regular file, for a smaller file and for other
  leading bytes the verdict is negative.
\<close>

theorem is_sqlite3_verdict:
  "fst (is_sqlite3 filename w) =
     Inr (case stat w filename of
            Some (File bs) \<Rightarrow> 100 \<le> length bs \<and> take 16 bs = magic
          | _ \<Rightarrow> False)"
  by (auto simp: is_sqlite3_def os_path_isfile_def os_path_getsize_def read_file_def Let_def
           split: option.splits node.splits)

lemma example_stat: "stat example_world ''app.db'' = Some (File example_db)"
  by code_simp

theorem is_sqlite3_verdict_witness:
  "fst (is_sqlite3 ''app.db'' example_world) = Inr True"
proof -
  have "length example_db = 100" by (simp add: example_db_def magic_def)
  moreover have "take 16 example_db = magic" by (simp add: example_db_def magic_def)
  ultimately show ?thesis
    using is_sqlite3_verdict [of "''app.db''" example_world] by (simp add: example_stat)
qed

subsection \<open>Table Enumerator\<close>

text \<open>
  The engine's answer to the statement of \<open>get_tables\<close>: its \<open>WHERE\<close> clause keeps the
  rows of kind \<open>table\<close>.
\<close>

lemma tables_sql_answer:
  "select_name_from_master catalog tables_sql
     = Inr (names_of (filter (\<lambda>e. entry_type e = ''table'') catalog))"
  by (simp add: select_name_from_master_def tables_sql_def squote_def)

lemma tables_sql_on_master: "strip_prefix ''SELECT name FROM sqlite_master'' tables_sql \<noteq> None"
  by (simp add: tables_sql_def)

lemma first_column_of_names:
  "map_exn (\<lambda>row. py_index row 0) (names_of entries) = Inr (map (\<lambda>e. VText (entry_name e)) entries)"
  unfolding names_of_def by (induction entries) (simp_all add: py_index_def)

lemma example_reads_catalog: "reads_catalog example_cursor example_catalog"
  unfolding reads_catalog_def example_cursor_def by auto

text \<open>
  Claim C4, as stated, fails: on a catalog that holds a table of the engine's own,
  \<open>get_tables\<close> returns that table with the user's, where the contract promises the
  user tables only.
\<close>

theorem get_tables_counterexample:
  "reads_catalog example_cursor example_catalog \<and>
   get_tables example_cursor = Inr [VText ''users'', VText ''sqlite_sequence''] \<and>
   user_table_names example_catalog = [''users'']"
proof -
  have "get_tables example_cursor = Inr [VText ''users'', VText ''sqlite_sequence'']"
    by code_simp
  moreover have "user_table_names example_catalog = [''users'']"
    by code_simp
  ultimately show ?thesis using example_reads_catalog by simp
qed

text \<open>
  Claim C4, amended. On a cursor that reads a catalog, \<open>get_tables\<close> returns the names
  of the catalog's rows of kind \<open>table\<close>, all of them and in the catalog's order: the
  \<open>WHERE\<close> clause of its statement leaves views, indexes and triggers out, the engine's
  own tables it does not, and the result is empty when the catalog has no row of kind
  \<open>table\<close>.
\<close>

theorem get_tables_catalog:
  assumes "reads_catalog cursor catalog"
  shows "get_tables cursor =
           Inr (map (\<lambda>e. VText (entry_name e)) (filter (\<lambda>e. entry_type e = ''table'') catalog))"
proof -
  from assms tables_sql_on_master
  have "cur_execute cursor tables_sql = select_name_from_master catalog tables_sql"
    unfolding reads_catalog_def by blast
  then show ?thesis
    by (simp add: get_tables_def tables_sql_answer first_column_of_names)
qed

theorem get_tables_catalog_witness:
  "get_tables example_cursor =
     Inr (map (\<lambda>e. VText (entry_name e)) (filter (\<lambda>e. entry_type e = ''table'') example_catalog))"
  using get_tables_catalog [OF example_reads_catalog] .

subsection \<open>Value Normalizer and Records\<close>

lemma to_string_id: "\<not> is_blob v \<Longrightarrow> to_string v = v"
  by (cases v) simp_all

text \<open>
  Claim C6. For a row without binary values, the Record that the exporter builds is the
  dict of the column names zipped with the raw values: \<open>to_string\<close> changes none of them.
\<close>

theorem record_is_direct_mapping:
  assumes "\<forall>v \<in> set row. \<not> is_blob v"
  shows "row_dict column_names row = dict_of (zip column_names row) \<and> map to_string row = row"
proof -
  have m: "map to_string row = row"
    using assms by (induction row) (simp_all add: to_string_id)
  have "map (\<lambda>(column_name, v). (column_name, to_string v)) (zip column_names row)
          = zip column_names (map to_string row)"
    by (simp add: zip_map2 case_prod_unfold)
  with m show ?thesis by (simp add: row_dict_def)
qed

theorem record_is_direct_mapping_witness:
  "row_dict [VText ''id'', VText ''name'', VText ''mail''] [VInt 1, VText ''ada'', VNull] =
     [(VText ''id'', VInt 1), (VText ''name'', VText ''ada''), (VText ''mail'', VNull)]"
proof -
  have h: "\<forall>v \<in> set [VInt 1, VText ''ada'', VNull]. \<not> is_blob v" by simp
  show ?thesis
    using record_is_direct_mapping [OF h, of "[VText ''id'', VText ''name'', VText ''mail'']"]
    by (simp add: dict_of_def)
qed

text \<open>
  Claim C7 at the bytes \<open>it's\<close>. Their textual representation is quoted with double
  quotes, which \<open>strip("'")\<close> leaves in place: \<open>to_string\<close> returns the text with the
  two double quotes around it, where the representation without prefix and quotes is the
  text itself.
\<close>

theorem to_string_keeps_double_quotes:
  "to_string (VBlob blob_with_quote) = VText ([dquote] @ blob_with_quote @ [dquote]) \<and>
   repr_without_prefix_and_quotes blob_with_quote = blob_with_quote"
  by code_simp

text \<open>
  With both kinds of quote in the bytes the representation is quoted with single quotes,
  and \<open>strip("'")\<close> then takes the escaped quote at the end of the content with it.
\<close>

lemma to_string_strips_trailing_quote:
  "to_string (VBlob [dquote, squote]) = VText [dquote, backslash] \<and>
   repr_without_prefix_and_quotes [dquote, squote] = [dquote, backslash, squote]"
  by code_simp

text \<open>What does hold for every value: the result of \<open>to_string\<close> is serializable.\<close>

lemma to_string_serializable: "\<exists>s. json_value float_repr (to_string v) = Inr s"
  by (cases v) simp_all

subsection \<open>Splitting and joining paths\<close>

lemma split_sep_nonempty: "split_sep s \<noteq> []"
  by (induction s) (auto split: list.splits)

lemma split_sep_no_sep: "x \<in> set (split_sep s) \<Longrightarrow> sep \<notin> set x"
  by (induction s arbitrary: x) (auto split: list.splits if_splits)

lemma join_split_sep: "join_sep (split_sep s) = s"
proof (induction s)
  case Nil
  show ?case by simp
next
  case (Cons c cs)
  obtain x xs where x: "split_sep cs = x # xs"
    using split_sep_nonempty by (cases "split_sep cs") auto
  with Cons show ?case by (cases xs) auto
qed

lemma split_sep_no_sep_id: "sep \<notin> set x \<Longrightarrow> split_sep x = [x]"
  by (induction x) auto

lemma split_sep_append_piece:
  "sep \<notin> set x \<Longrightarrow> split_sep (x @ sep # s) = x # split_sep s"
  by (induction x) auto

lemma split_join_sep:
  "xs \<noteq> [] \<Longrightarrow> (\<And>x. x \<in> set xs \<Longrightarrow> sep \<notin> set x) \<Longrightarrow> split_sep (join_sep xs) = xs"
proof (induction xs rule: join_sep.induct)
  case 1
  then show ?case by simp
next
  case (2 x)
  then show ?case by (simp add: split_sep_no_sep_id)
next
  case (3 x y ys)
  then show ?case by (simp add: split_sep_append_piece)
qed

lemma split_sep_append_suffix:
  "sep \<notin> set s \<Longrightarrow> split_sep (p @ s) = butlast (split_sep p) @ [last (split_sep p) @ s]"
proof (induction p)
  case Nil
  then show ?case by (simp add: split_sep_no_sep_id)
next
  case (Cons c cs)
  obtain x xs where x: "split_sep cs = x # xs"
    using split_sep_nonempty by (cases "split_sep cs") auto
  obtain y ys where y: "split_sep (cs @ s) = y # ys"
    using split_sep_nonempty by (cases "split_sep (cs @ s)") auto
  from Cons x y show ?case
    by (cases xs) (auto simp: split_sep_nonempty)
qed

lemma join_sep_snoc: "xs \<noteq> [] \<Longrightarrow> join_sep (xs @ [l]) = join_sep xs @ sep # l"
  by (induction xs rule: join_sep.induct) auto

subsection \<open>Paths in the file system\<close>

lemma stat_print [simp]: "stat (print l w) p = stat w p"
  by (simp add: stat_def print_def resolve_def)

lemma needs_dir_Nil: "needs_dir []"
  by (simp add: needs_dir_def)

lemma resolve_dirpart:
  "\<not> needs_dir p \<Longrightarrow> resolve w p = dirpart w p @ [last (split_sep p)]"
proof -
  assume n: "\<not> needs_dir p"
  have "split_sep p = butlast (split_sep p) @ [last (split_sep p)]"
    by (simp add: split_sep_nonempty)
  then have "components p =
      filter (\<lambda>c. c \<noteq> [] \<and> c \<noteq> ''.'') (butlast (split_sep p) @ [last (split_sep p)])"
    by (simp add: components_def)
  with n show ?thesis
    by (simp add: resolve_def dirpart_def needs_dir_def)
qed

lemma startswith_sep_append: "p \<noteq> [] \<Longrightarrow> startswith_sep (p @ s) = startswith_sep p"
  by (cases p) (simp_all add: startswith_sep_def)

lemma needs_dir_suffix:
  "sep \<notin> set s \<Longrightarrow> \<not> needs_dir p \<Longrightarrow> \<not> needs_dir (p @ s)"
  by (auto simp: needs_dir_def split_sep_append_suffix append_eq_Cons_conv)

lemma dirpart_suffix:
  "sep \<notin> set s \<Longrightarrow> p \<noteq> [] \<Longrightarrow> dirpart w (p @ s) = dirpart w p"
  by (simp add: dirpart_def split_sep_append_suffix startswith_sep_append)

lemma resolve_suffix:
  assumes "sep \<notin> set s" "\<not> needs_dir p"
  shows "resolve w (p @ s) = dirpart w p @ [last (split_sep p) @ s]"
proof -
  have p: "p \<noteq> []" using assms(2) needs_dir_Nil by auto
  have "resolve w (p @ s) = dirpart w (p @ s) @ [last (split_sep (p @ s))]"
    using assms by (simp add: resolve_dirpart needs_dir_suffix)
  then show ?thesis
    using assms p by (simp add: dirpart_suffix split_sep_append_suffix)
qed

lemma copy_file:
  assumes "stat u src = Some (File bs)"
    and "\<not> os_path_isdir u dst" and "\<not> needs_dir dst"
    and "resolve u src \<noteq> resolve u dst"
    and "files u (butlast (resolve u dst)) = Some Dir"
  shows "shutil_copy src dst u = (Inr (), u\<lparr>files := (files u)(resolve u dst \<mapsto> File bs)\<rparr>)"
proof -
  have d: "dst \<noteq> []" using assms(3) needs_dir_Nil by auto
  have nd: "files u (resolve u dst) \<noteq> Some Dir"
    using assms(2) d by (auto simp: os_path_isdir_def stat_def split: option.splits node.splits if_splits)
  show ?thesis
    using assms d nd
    by (auto simp: shutil_copy_def samefile_def read_file_def open_w_def file_write_def Let_def
             split: option.splits node.splits)
qed

lemma remove_file:
  "stat u p = Some (File bs) \<Longrightarrow>
     os_remove p u = (Inr (), u\<lparr>files := (files u)(resolve u p := None)\<rparr>)"
  by (simp add: os_remove_def)

lemma stat_file:
  assumes "stat w p = Some (File bs)"
  shows "\<not> needs_dir p" and "files w (resolve w p) = Some (File bs)"
  using assms by (auto simp: stat_def split: if_splits option.splits node.splits)

lemma stat_plain:
  "\<not> needs_dir p \<Longrightarrow> stat w p = files w (resolve w p)"
  using needs_dir_Nil by (auto simp: stat_def split: option.splits node.splits)

lemma backup_suffix_no_sep: "sep \<notin> set ''.backup''"
  by (simp add: sep_def)

text \<open>The paths of the source and of its backup.\<close>

lemma source_and_backup:
  assumes "\<not> needs_dir input"
  shows "resolve w input = dirpart w input @ [last (split_sep input)]"
    and "resolve w (input @ ''.backup'') = dirpart w input @ [last (split_sep input) @ ''.backup'']"
    and "\<not> needs_dir (input @ ''.backup'')"
    and "resolve w input \<noteq> resolve w (input @ ''.backup'')"
proof -
  show 1: "resolve w input = dirpart w input @ [last (split_sep input)]"
    using assms by (rule resolve_dirpart)
  show 2: "resolve w (input @ ''.backup'') = dirpart w input @ [last (split_sep input) @ ''.backup'']"
    using backup_suffix_no_sep assms by (rule resolve_suffix)
  show "\<not> needs_dir (input @ ''.backup'')"
    using backup_suffix_no_sep assms by (rule needs_dir_suffix)
  show "resolve w input \<noteq> resolve w (input @ ''.backup'')"
    unfolding 1 2 by simp
qed

lemma restore_from_backup:
  assumes nd: "\<not> needs_dir input"
    and b: "files v (resolve v (input @ ''.backup'')) = Some (File bs)"
    and i: "files v (resolve v input) \<noteq> Some Dir"
    and d: "files v (dirpart v input) = Some Dir"
  shows "apply_wal_except input (input @ ''.backup'') e v =
           (Inr (), print (''[EXCEPTION RAISED] Applying WAL: '' @ exn_str e)
                      (v\<lparr>files := (files v)(resolve v input \<mapsto> File bs,
                                              resolve v (input @ ''.backup'') := None)\<rparr>))"
proof -
  note sb = source_and_backup [OF nd]
  have sb1: "stat v (input @ ''.backup'') = Some (File bs)"
    using b sb(3) by (simp add: stat_plain)
  have nisdir: "\<not> os_path_isdir v input"
    using i nd by (simp add: os_path_isdir_def stat_plain split: option.splits node.splits)
  have par: "files v (butlast (resolve v input)) = Some Dir"
    using d sb(1) by simp
  have c: "shutil_copy (input @ ''.backup'') input v =
             (Inr (), v\<lparr>files := (files v)(resolve v input \<mapsto> File bs)\<rparr>)"
    using copy_file [OF sb1 nisdir nd _ par] sb(4) [of v] by (simp add: eq_commute)
  let ?v1 = "v\<lparr>files := (files v)(resolve v input \<mapsto> File bs)\<rparr>"
  have r1: "resolve ?v1 (input @ ''.backup'') = resolve v (input @ ''.backup'')"
    by (simp add: resolve_def)
  have "stat ?v1 (input @ ''.backup'') = Some (File bs)"
    using b sb(3) sb(4) by (simp add: stat_plain r1)
  then have r: "os_remove (input @ ''.backup'') ?v1 =
                  (Inr (), ?v1\<lparr>files := (files ?v1)(resolve v (input @ ''.backup'') := None)\<rparr>)"
    using remove_file [of ?v1 "input @ ''.backup''" bs] by (simp add: r1)
  show ?thesis
    by (simp add: apply_wal_except_def c r)
qed

lemma make_backup:
  assumes src: "stat u input = Some (File bs)"
    and wf: "wf_world u"
    and bk: "\<not> os_path_isdir u (input @ ''.backup'')"
  shows "shutil_copy input (input @ ''.backup'') u =
           (Inr (), u\<lparr>files := (files u)(resolve u (input @ ''.backup'') \<mapsto> File bs)\<rparr>)"
proof -
  note nd = stat_file(1) [OF src]
  note sb = source_and_backup [OF nd]
  have "files u (dirpart u input @ [last (split_sep input)]) \<noteq> None"
    using stat_file(2) [OF src] sb(1) by simp
  then have "files u (dirpart u input) = Some Dir"
    using wf unfolding wf_world_def by blast
  then have par: "files u (butlast (resolve u (input @ ''.backup''))) = Some Dir"
    using sb(2) by simp
  show ?thesis
    using copy_file [OF src bk sb(3) sb(4) par] .
qed

lemma print_simps [simp]:
  "files (print l w) = files w" "cwd (print l w) = cwd w"
  "statements (print l w) = statements w" "stdout (print l w) = stdout w @ [l]"
  by (simp_all add: print_def)

lemma resolve_print [simp]: "resolve (print l w) p = resolve w p"
  by (simp add: resolve_def)

lemma dirpart_print [simp]: "dirpart (print l w) p = dirpart w p"
  by (simp add: dirpart_def)

lemma os_path_isdir_print [simp]: "os_path_isdir (print l w) p = os_path_isdir w p"
  by (simp add: os_path_isdir_def)

lemma os_path_exists_print [simp]: "os_path_exists (print l w) p = os_path_exists w p"
  by (simp add: os_path_exists_def)

lemma wf_world_print [simp]: "wf_world (print l w) = wf_world w"
  by (simp add: wf_world_def)

lemma resolve_update [simp]:
  "resolve (w\<lparr>files := t\<rparr>) p = resolve w p"
  "resolve (w\<lparr>files := t, statements := ss\<rparr>) p = resolve w p"
  by (simp_all add: resolve_def)

lemma dirpart_update [simp]:
  "dirpart (w\<lparr>files := t\<rparr>) p = dirpart w p"
  "dirpart (w\<lparr>files := t, statements := ss\<rparr>) p = dirpart w p"
  by (simp_all add: dirpart_def)

text \<open>What a statement of a confined engine keeps of the file system.\<close>

lemma engine_step:
  assumes la: "leaves_alone conn b" and kd: "keeps_directories conn"
    and ex: "conn_execute conn sql t = (r, t')"
    and "t b = Some (File bs)" and "t i \<noteq> Some Dir" and "t d = Some Dir"
  shows "t' b = Some (File bs) \<and> t' i \<noteq> Some Dir \<and> t' d = Some Dir"
proof -
  have t': "t' = snd (conn_execute conn sql t)" using ex by simp
  have "t' b = t b" using la unfolding leaves_alone_def t' by blast
  moreover have "(t' i = Some Dir) = (t i = Some Dir)" "(t' d = Some Dir) = (t d = Some Dir)"
    using kd unfolding keeps_directories_def t' by blast+
  ultimately show ?thesis using assms(4-6) by simp
qed

lemma apply_wal_after_backup:
  assumes src: "stat w input = Some (File bs)"
    and wf: "wf_world w"
    and bk: "\<not> os_path_isdir w (input @ ''.backup'')"
  shows "apply_wal conn input w =
     (let w1 = (if \<not> os_path_exists w (input @ ''-wal'')
                then print (''[INFO] No WAL applied to '' @ input) w else w);
          w3 = print (''[INFO] A backup has been done: '' @ input @ ''.backup'' @ ''.'')
                 (w1\<lparr>files := (files w)(resolve w (input @ ''.backup'') \<mapsto> File bs)\<rparr>)
      in case apply_wal_try conn (input @ ''.backup'') w3 of
           (Inl e, w4) \<Rightarrow> apply_wal_except input (input @ ''.backup'') e w4
         | (Inr _, w4) \<Rightarrow> (Inr (), w4))"
proof (cases "os_path_exists w (input @ ''-wal'')")
  case True
  then show ?thesis
    using make_backup [OF src wf bk] by (simp add: apply_wal_def Let_def)
next
  case False
  let ?u = "print (''[INFO] No WAL applied to '' @ input) w"
  have "stat ?u input = Some (File bs)" "wf_world ?u" "\<not> os_path_isdir ?u (input @ ''.backup'')"
    using src wf bk by simp_all
  from make_backup [OF this] False show ?thesis
    by (simp add: apply_wal_def Let_def)
qed

subsection \<open>Log Folder\<close>

lemma restored:
  assumes nd: "\<not> needs_dir input"
    and inv: "files v (resolve v (input @ ''.backup'')) = Some (File bs) \<and>
              files v (resolve v input) \<noteq> Some Dir \<and>
              files v (dirpart v input) = Some Dir"
  shows "fst (apply_wal_except input (input @ ''.backup'') e v) = Inr () \<and>
         stat (snd (apply_wal_except input (input @ ''.backup'') e v)) input = Some (File bs) \<and>
         stat (snd (apply_wal_except input (input @ ''.backup'') e v)) (input @ ''.backup'') = None \<and>
         last (stdout (snd (apply_wal_except input (input @ ''.backup'') e v)))
           = ''[EXCEPTION RAISED] Applying WAL: '' @ exn_str e \<and>
         statements (snd (apply_wal_except input (input @ ''.backup'') e v)) = statements v"
proof -
  note sb = source_and_backup [OF nd]
  have r: "apply_wal_except input (input @ ''.backup'') e v =
           (Inr (), print (''[EXCEPTION RAISED] Applying WAL: '' @ exn_str e)
                      (v\<lparr>files := (files v)(resolve v input \<mapsto> File bs,
                                              resolve v (input @ ''.backup'') := None)\<rparr>))"
    using restore_from_backup [OF nd] inv by blast
  show ?thesis
    unfolding r using sb(4) [of v] by (simp add: stat_plain nd sb(3))
qed

text \<open>
  Where the handler does restore. The source is a regular file in a well-formed file
  system, its backup path is not a directory, and the engine neither touches the backup
  nor makes or removes directories. If the checkpoint fails, or the compaction after it,
  then \<open>apply_wal\<close> returns normally, the source holds its bytes of before the run, no
  backup file remains, the failure is the last line printed, and each statement was
  issued once: the checkpoint alone, or the checkpoint and the compaction.
\<close>

lemma apply_wal_restores_on_failure:
  assumes src: "stat w input_filename = Some (File bs)"
    and wf: "wf_world w"
    and bk: "\<not> os_path_isdir w (input_filename @ ''.backup'')"
    and la: "leaves_alone conn (resolve w (input_filename @ ''.backup''))"
    and kd: "keeps_directories conn"
    and fail: "wal_step_fails conn ((files w)(resolve w (input_filename @ ''.backup'') \<mapsto> File bs))"
  shows "fst (apply_wal conn input_filename w) = Inr () \<and>
         stat (snd (apply_wal conn input_filename w)) input_filename = Some (File bs) \<and>
         stat (snd (apply_wal conn input_filename w)) (input_filename @ ''.backup'') = None \<and>
         (\<exists>e. last (stdout (snd (apply_wal conn input_filename w)))
                = ''[EXCEPTION RAISED] Applying WAL: '' @ exn_str e) \<and>
         (statements (snd (apply_wal conn input_filename w)) = statements w @ [checkpoint_sql] \<or>
          statements (snd (apply_wal conn input_filename w))
            = statements w @ [checkpoint_sql, vacuum_sql])"
proof -
  let ?backup = "input_filename @ ''.backup''"
  let ?B = "resolve w ?backup"
  let ?I = "resolve w input_filename"
  let ?D = "dirpart w input_filename"
  let ?t1 = "(files w)(?B \<mapsto> File bs)"
  let ?w1 = "if \<not> os_path_exists w (input_filename @ ''-wal'')
             then print (''[INFO] No WAL applied to '' @ input_filename) w else w"
  let ?w3 = "print (''[INFO] A backup has been done: '' @ input_filename @ ''.backup'' @ ''.'')
               (?w1\<lparr>files := ?t1\<rparr>)"
  note nd = stat_file(1) [OF src]
  note sb = source_and_backup [OF nd]
  have fI: "files w ?I = Some (File bs)" using stat_file(2) [OF src] .
  then have "files w (?D @ [last (split_sep input_filename)]) \<noteq> None"
    using sb(1) [of w] by simp
  then have fD: "files w ?D = Some Dir"
    using wf unfolding wf_world_def by blast
  have DB: "?D \<noteq> ?B" using sb(2) [of w] by simp
  have IB: "?I \<noteq> ?B" using sb(4) [of w] .
  have inv1: "?t1 ?B = Some (File bs)" "?t1 ?I \<noteq> Some Dir" "?t1 ?D = Some Dir"
    using fI fD DB IB by simp_all
  have cw: "cwd ?w1 = cwd w" "statements ?w1 = statements w" by simp_all
  have rw: "\<And>p. resolve ?w1 p = resolve w p" "\<And>p. dirpart ?w1 p = dirpart w p"
    by (simp_all add: resolve_def dirpart_def)
  have aw: "apply_wal conn input_filename w =
      (case apply_wal_try conn ?backup ?w3 of
         (Inl e, w4) \<Rightarrow> apply_wal_except input_filename ?backup e w4
       | (Inr _, w4) \<Rightarrow> (Inr (), w4))"
    using apply_wal_after_backup [OF src wf bk, of conn] by (simp add: Let_def)
  obtain r1 t2 where c1: "conn_execute conn checkpoint_sql ?t1 = (r1, t2)"
    by (cases "conn_execute conn checkpoint_sql ?t1") auto
  note inv2 = engine_step [OF la kd c1 inv1]
  show ?thesis
  proof (cases r1)
    case (Some e)
    let ?v = "?w3\<lparr>files := t2, statements := statements w @ [checkpoint_sql]\<rparr>"
    have t: "apply_wal_try conn ?backup ?w3 = (Inl e, ?v)"
      using c1 Some cw by (simp add: apply_wal_try_def execute_def)
    have "files ?v (resolve ?v ?backup) = Some (File bs) \<and>
          files ?v (resolve ?v input_filename) \<noteq> Some Dir \<and>
          files ?v (dirpart ?v input_filename) = Some Dir"
      using inv2 rw by simp
    from restored [OF nd this, of e] show ?thesis
      unfolding aw t by auto
  next
    case None
    obtain r2 t3 where c2: "conn_execute conn vacuum_sql t2 = (r2, t3)"
      by (cases "conn_execute conn vacuum_sql t2") auto
    from fail c1 None c2 obtain e where r2: "r2 = Some e"
      by (auto simp: wal_step_fails_def)
    have inv3: "t3 ?B = Some (File bs) \<and> t3 ?I \<noteq> Some Dir \<and> t3 ?D = Some Dir"
      using engine_step [OF la kd c2] inv2 by blast
    let ?v = "?w3\<lparr>files := t3, statements := statements w @ [checkpoint_sql, vacuum_sql]\<rparr>"
    have t: "apply_wal_try conn ?backup ?w3 = (Inl e, ?v)"
      using c1 None c2 r2 cw by (simp add: apply_wal_try_def execute_def)
    have "files ?v (resolve ?v ?backup) = Some (File bs) \<and>
          files ?v (resolve ?v input_filename) \<noteq> Some Dir \<and>
          files ?v (dirpart ?v input_filename) = Some Dir"
      using inv3 rw by simp
    from restored [OF nd this, of e] show ?thesis
      unfolding aw t by auto
  qed
qed

lemma example_wf: "wf_world example_world"
  by (auto simp: wf_world_def example_world_def append_eq_Cons_conv split: if_splits)

lemma example_backup_path: "resolve example_world (''app.db'' @ ''.backup'') = [''home'', ''app.db.backup'']"
  by code_simp

lemma example_no_backup: "\<not> os_path_isdir example_world (''app.db'' @ ''.backup'')"
  by code_simp

text \<open>
  Claim C2 at a database without a write-ahead-log file beside it. \<open>apply_wal\<close> prints
  that no WAL is applied and goes on: the checkpoint and the compaction are issued all the
  same, and the compaction of this engine rewrites the source file.
\<close>

theorem apply_wal_without_wal_runs_statements:
  "\<not> os_path_exists example_world ''app.db-wal'' \<and>
   stdout (snd (apply_wal compacting_conn ''app.db'' example_world))
     = [''[INFO] No WAL applied to app.db'', ''[INFO] A backup has been done: app.db.backup.''] \<and>
   statements (snd (apply_wal compacting_conn ''app.db'' example_world))
     = [checkpoint_sql, vacuum_sql] \<and>
   stat example_world ''app.db'' = Some (File example_db) \<and>
   stat (snd (apply_wal compacting_conn ''app.db'' example_world)) ''app.db''
     = Some (File compacted_db) \<and>
   compacted_db \<noteq> example_db"
  by code_simp

text \<open>
  Claim C3 where a directory stands at the backup path. The backup is copied into that
  directory; the compaction damages the source and fails; the handler then cannot read
  the backup path as a file, and its \<open>IsADirectoryError\<close> leaves \<open>apply_wal\<close>: the
  source keeps the damaged bytes and the backup is still there.
\<close>

theorem apply_wal_backup_path_is_directory:
  "os_path_isdir backup_dir_world ''app.db.backup'' \<and>
   stat backup_dir_world ''app.db'' = Some (File example_db) \<and>
   fst (apply_wal failing_conn ''app.db'' backup_dir_world)
     = Inl (Exn IsADirectoryError ''app.db.backup'') \<and>
   stat (snd (apply_wal failing_conn ''app.db'' backup_dir_world)) ''app.db''
     = Some (File ''damaged'') \<and>
   stat (snd (apply_wal failing_conn ''app.db'' backup_dir_world)) ''app.db.backup/app.db''
     = Some (File example_db) \<and>
   statements (snd (apply_wal failing_conn ''app.db'' backup_dir_world))
     = [checkpoint_sql, vacuum_sql]"
  by code_simp

text \<open>The same failure with nothing at the backup path: the source is restored.\<close>

lemma apply_wal_restores_example:
  "fst (apply_wal failing_conn ''app.db'' example_world) = Inr () \<and>
   stat (snd (apply_wal failing_conn ''app.db'' example_world)) ''app.db'' = Some (File example_db) \<and>
   stat (snd (apply_wal failing_conn ''app.db'' example_world)) ''app.db.backup'' = None"
proof -
  have la: "leaves_alone failing_conn (resolve example_world (''app.db'' @ ''.backup''))"
    unfolding example_backup_path by (simp add: leaves_alone_def failing_conn_def)
  have kd: "keeps_directories failing_conn"
    by (auto simp: keeps_directories_def failing_conn_def is_file_def
             split: option.splits node.splits)
  have fail: "wal_step_fails failing_conn
      ((files example_world)(resolve example_world (''app.db'' @ ''.backup'') \<mapsto> File example_db))"
    unfolding example_backup_path
    by (simp add: wal_step_fails_def failing_conn_def example_world_def is_file_def
                  checkpoint_sql_def vacuum_sql_def)
  show ?thesis
    using apply_wal_restores_on_failure [OF example_stat example_wf example_no_backup la kd fail]
    by simp
qed

subsection \<open>Batch Driver\<close>

lemma is_sqlite3_returns: "\<exists>ok w'. is_sqlite3 filename w = (Inr ok, w')"
  by (auto simp: is_sqlite3_def os_path_isfile_def os_path_getsize_def read_file_def Let_def
           split: option.splits node.splits)

text \<open>
  Claim C9 where the connection cannot be opened (the caller vouches for the file, as
  directory mode does). The exception of \<open>sqlite3.connect\<close> is printed, and then the
  handler calls \<open>close\<close> on the empty string that \<open>cursor\<close> still is: the
  \<open>AttributeError\<close> of that call is what \<open>process_file\<close> raises to its caller.
\<close>

theorem process_file_connect_failure:
  "fst (process_file float_repr (\<lambda>p w. Inl e) input_filename output_dir True w) = Inl no_close \<and>
   last (stdout (snd (process_file float_repr (\<lambda>p w. Inl e) input_filename output_dir True w)))
     = ''[EXCEPTION RAISED] '' @ exn_str e"
proof -
  obtain ok w' where "is_sqlite3 input_filename
      (print (''[INFO] Processing '' @ input_filename @ ''...'') w) = (Inr ok, w')"
    using is_sqlite3_returns by blast
  then show ?thesis
    by (simp add: process_file_def process_file_except_def print_def Let_def)
qed

text \<open>
  Claim C8 at the absolute input path \<open>/home/app.db\<close> with the output directory
  \<open>out\<close>. \<open>os.path.join\<close> drops the output directory, so the folder of the database
  is the database file itself: it cannot be made, no table can be written, and neither
  \<open>out/home/app.db/users.jsonl\<close> nor any file under the database path exists afterwards.
\<close>

theorem absolute_input_exports_nothing:
  "os_path_join ''out'' ''/home/app.db'' = ''/home/app.db'' \<and>
   fst (process_file no_floats (\<lambda>p w. Inr example_conn) ''/home/app.db'' ''out'' False example_world)
     = Inr () \<and>
   files (snd (process_file no_floats (\<lambda>p w. Inr example_conn) ''/home/app.db'' ''out'' False
                 example_world))
     [''home'', ''out'', ''home'', ''app.db'', ''users.jsonl''] = None \<and>
   files (snd (process_file no_floats (\<lambda>p w. Inr example_conn) ''/home/app.db'' ''out'' False
                 example_world))
     [''home'', ''app.db'', ''users.jsonl''] = None"
  by code_simp

text \<open>The same database given by a relative path is exported under the output directory.\<close>

lemma relative_input_exports:
  "is_file (files (snd (process_file no_floats (\<lambda>p w. Inr example_conn) ''app.db'' ''out'' False
                          example_world))
              [''home'', ''out'', ''app.db'', ''users.jsonl''])"
  by code_simp

subsection \<open>Making directories\<close>

lemma mkdirs_step_None:
  "t (pre @ [c]) = None \<Longrightarrow>
     mkdirs p pre (c # cs) t = mkdirs p (pre @ [c]) cs (t(pre @ [c] \<mapsto> Dir))"
  by simp

lemma mkdirs_step_Dir:
  "t (pre @ [c]) = Some Dir \<Longrightarrow> mkdirs p pre (c # cs) t = mkdirs p (pre @ [c]) cs t"
  by simp

lemma mkdirs_step_File:
  "t (pre @ [c]) = Some (File bs) \<Longrightarrow>
     mkdirs p pre (c # cs) t =
       (Some (Exn (if cs = [] then FileExistsError else NotADirectoryError) p), t)"
  by simp

lemma mkdirs_keeps: "t k \<noteq> None \<Longrightarrow> snd (mkdirs p pre cs t) k = t k"
proof (induction cs arbitrary: pre t)
  case Nil
  show ?case by simp
next
  case (Cons c cs)
  show ?case
  proof (cases "t (pre @ [c])")
    case None
    let ?t = "t(pre @ [c] \<mapsto> Dir)"
    from None Cons.prems have ne: "k \<noteq> pre @ [c]" by auto
    then have "?t k \<noteq> None" using Cons.prems by simp
    then have "snd (mkdirs p (pre @ [c]) cs ?t) k = ?t k" by (rule Cons.IH)
    then show ?thesis unfolding mkdirs_step_None [where pre = pre and c = c and t = t, OF None] using ne by simp
  next
    case (Some n)
    show ?thesis
    proof (cases n)
      case (File bs)
      with Some have "t (pre @ [c]) = Some (File bs)" by simp
      then show ?thesis unfolding mkdirs_step_File [where pre = pre and c = c and t = t, OF \<open>t (pre @ [c]) = Some (File bs)\<close>] by simp
    next
      case Dir
      with Some have d: "t (pre @ [c]) = Some Dir" by simp
      show ?thesis unfolding mkdirs_step_Dir [where pre = pre and c = c and t = t, OF d] using Cons.prems by (rule Cons.IH)
    qed
  qed
qed

lemma mkdirs_idem:
  "snd (mkdirs p pre cs (snd (mkdirs p pre cs t))) = snd (mkdirs p pre cs t)"
proof (induction cs arbitrary: pre t)
  case Nil
  show ?case by simp
next
  case (Cons c cs)
  show ?case
  proof (cases "t (pre @ [c])")
    case None
    let ?t = "t(pre @ [c] \<mapsto> Dir)"
    let ?t' = "snd (mkdirs p (pre @ [c]) cs ?t)"
    have "?t (pre @ [c]) \<noteq> None" by simp
    then have "?t' (pre @ [c]) = ?t (pre @ [c])" by (rule mkdirs_keeps)
    then have d: "?t' (pre @ [c]) = Some Dir" by simp
    have "snd (mkdirs p pre (c # cs) ?t') = snd (mkdirs p (pre @ [c]) cs ?t')"
      unfolding mkdirs_step_Dir [where pre = pre and c = c and t = "?t'", OF d] ..
    also have "\<dots> = ?t'" by (rule Cons.IH)
    finally show ?thesis unfolding mkdirs_step_None [where pre = pre and c = c and t = t, OF None] .
  next
    case (Some n)
    show ?thesis
    proof (cases n)
      case (File bs)
      with Some have f: "t (pre @ [c]) = Some (File bs)" by simp
      show ?thesis unfolding mkdirs_step_File [where pre = pre and c = c and t = t, OF f] snd_conv mkdirs_step_File [where pre = pre and c = c and t = t, OF f] ..
    next
      case Dir
      with Some have d: "t (pre @ [c]) = Some Dir" by simp
      let ?t' = "snd (mkdirs p (pre @ [c]) cs t)"
      have "t (pre @ [c]) \<noteq> None" using d by simp
      then have "?t' (pre @ [c]) = t (pre @ [c])" by (rule mkdirs_keeps)
      then have d': "?t' (pre @ [c]) = Some Dir" using d by simp
      have "snd (mkdirs p pre (c # cs) ?t') = snd (mkdirs p (pre @ [c]) cs ?t')"
        unfolding mkdirs_step_Dir [where pre = pre and c = c and t = "?t'", OF d'] ..
      also have "\<dots> = ?t'" by (rule Cons.IH)
      finally show ?thesis unfolding mkdirs_step_Dir [where pre = pre and c = c and t = t, OF d] .
    qed
  qed
qed

lemma mkdirs_below:
  "mkdirs p pre cs (t(pre @ cs @ [n] \<mapsto> v)) =
     (fst (mkdirs p pre cs t), (snd (mkdirs p pre cs t))(pre @ cs @ [n] \<mapsto> v))"
proof (induction cs arbitrary: pre t)
  case Nil
  show ?case by simp
next
  case (Cons c cs)
  let ?k = "pre @ (c # cs) @ [n]"
  have ne: "pre @ [c] \<noteq> ?k" by simp
  have eq: "?k = (pre @ [c]) @ cs @ [n]" by simp
  have look: "(t(?k \<mapsto> v)) (pre @ [c]) = t (pre @ [c])"
    using ne by simp
  show ?case
  proof (cases "t (pre @ [c])")
    case None
    let ?t = "t(pre @ [c] \<mapsto> Dir)"
    have n': "(t(?k \<mapsto> v)) (pre @ [c]) = None" using look None by simp
    have tw: "(t(?k \<mapsto> v))(pre @ [c] \<mapsto> Dir) = ?t((pre @ [c]) @ cs @ [n] \<mapsto> v)"
      unfolding eq [symmetric] using ne by (rule fun_upd_twist [symmetric])
    have "mkdirs p pre (c # cs) (t(?k \<mapsto> v))
            = mkdirs p (pre @ [c]) cs (?t((pre @ [c]) @ cs @ [n] \<mapsto> v))"
      unfolding mkdirs_step_None [where pre = pre and c = c and t = "t(?k \<mapsto> v)", OF n'] tw ..
    also have "\<dots> = (fst (mkdirs p (pre @ [c]) cs ?t),
                       (snd (mkdirs p (pre @ [c]) cs ?t))((pre @ [c]) @ cs @ [n] \<mapsto> v))"
      by (rule Cons.IH)
    finally show ?thesis unfolding mkdirs_step_None [where pre = pre and c = c and t = t, OF None] eq .
  next
    case (Some m)
    show ?thesis
    proof (cases m)
      case (File bs)
      with Some have f: "t (pre @ [c]) = Some (File bs)" by simp
      then have f': "(t(?k \<mapsto> v)) (pre @ [c]) = Some (File bs)" using look by simp
      show ?thesis
        unfolding mkdirs_step_File [where pre = pre and c = c and t = t, OF f]
          mkdirs_step_File [where pre = pre and c = c and t = "t(?k \<mapsto> v)", OF f']
        by (simp only: fst_conv snd_conv)
    next
      case Dir
      with Some have d: "t (pre @ [c]) = Some Dir" by simp
      then have d': "(t(?k \<mapsto> v)) (pre @ [c]) = Some Dir" using look by simp
      have "mkdirs p pre (c # cs) (t(?k \<mapsto> v)) = mkdirs p (pre @ [c]) cs (t(?k \<mapsto> v))"
        by (rule mkdirs_step_Dir [where pre = pre and c = c and t = "t(?k \<mapsto> v)", OF d'])
      also have "\<dots> = mkdirs p (pre @ [c]) cs (t((pre @ [c]) @ cs @ [n] \<mapsto> v))"
        by (simp only: eq)
      also have "\<dots> = (fst (mkdirs p (pre @ [c]) cs t),
                         (snd (mkdirs p (pre @ [c]) cs t))((pre @ [c]) @ cs @ [n] \<mapsto> v))"
        by (rule Cons.IH)
      also have "\<dots> = (fst (mkdirs p (pre @ [c]) cs t),
                         (snd (mkdirs p (pre @ [c]) cs t))(?k \<mapsto> v))"
        by (simp only: eq)
      finally show ?thesis
        unfolding mkdirs_step_Dir [where pre = pre and c = c and t = t, OF d] .
    qed
  qed
qed

lemma mkdirs_makes:
  assumes "\<And>i. 0 < i \<Longrightarrow> i \<le> length cs \<Longrightarrow> \<not> is_file (t (pre @ take i cs))"
  shows "fst (mkdirs p pre cs t) = None \<and>
         (\<forall>i. 0 < i \<and> i \<le> length cs \<longrightarrow> snd (mkdirs p pre cs t) (pre @ take i cs) = Some Dir)"
  using assms
proof (induction cs arbitrary: pre t)
  case Nil
  show ?case by simp
next
  case (Cons c cs)
  have first: "\<not> is_file (t (pre @ [c]))"
    using Cons.prems [of 1] by simp
  have rest: "\<not> is_file (t ((pre @ [c]) @ take i cs))" if "0 < i" "i \<le> length cs" for i
    using Cons.prems [of "Suc i"] that by simp
  obtain t' where step: "mkdirs p pre (c # cs) t = mkdirs p (pre @ [c]) cs t'"
    and dirc: "t' (pre @ [c]) = Some Dir"
    and same: "\<And>k. k \<noteq> pre @ [c] \<Longrightarrow> t' k = t k"
  proof (cases "t (pre @ [c])")
    case None
    show ?thesis
      by (rule that [of "t(pre @ [c] \<mapsto> Dir)"]) (simp_all add: None)
  next
    case (Some m)
    with first have d: "t (pre @ [c]) = Some Dir"
      by (cases m) (simp_all add: is_file_def)
    show ?thesis
      by (rule that [of t]) (simp_all add: d)
  qed
  have rest': "\<not> is_file (t' ((pre @ [c]) @ take i cs))" if "0 < i" "i \<le> length cs" for i
  proof -
    from that have "(pre @ [c]) @ take i cs \<noteq> pre @ [c]" by (cases cs) auto
    then show ?thesis using rest [OF that] same by simp
  qed
  have ih: "fst (mkdirs p (pre @ [c]) cs t') = None \<and>
       (\<forall>i. 0 < i \<and> i \<le> length cs \<longrightarrow>
            snd (mkdirs p (pre @ [c]) cs t') ((pre @ [c]) @ take i cs) = Some Dir)"
    by (rule Cons.IH) (rule rest')
  have "t' (pre @ [c]) \<noteq> None" using dirc by simp
  then have "snd (mkdirs p (pre @ [c]) cs t') (pre @ [c]) = t' (pre @ [c])"
    by (rule mkdirs_keeps)
  then have keep: "snd (mkdirs p (pre @ [c]) cs t') (pre @ [c]) = Some Dir"
    using dirc by simp
  show ?case
  proof (intro conjI allI impI)
    show "fst (mkdirs p pre (c # cs) t) = None"
      unfolding step using ih by simp
  next
    fix i assume i: "0 < i \<and> i \<le> length (c # cs)"
    then obtain j where j: "i = Suc j" by (cases i) auto
    show "snd (mkdirs p pre (c # cs) t) (pre @ take i (c # cs)) = Some Dir"
    proof (cases "j = 0")
      case True
      with j keep show ?thesis unfolding step by simp
    next
      case False
      with j i ih have "snd (mkdirs p (pre @ [c]) cs t') ((pre @ [c]) @ take j cs) = Some Dir"
        by simp
      with j show ?thesis unfolding step by simp
    qed
  qed
qed

lemma mkdirs_longer:
  "length pre + length cs < length k \<Longrightarrow> snd (mkdirs p pre cs t) k = t k"
proof (induction cs arbitrary: pre t)
  case Nil
  show ?case by simp
next
  case (Cons c cs)
  have ne: "k \<noteq> pre @ [c]" using Cons.prems by auto
  have len: "length (pre @ [c]) + length cs < length k" using Cons.prems by simp
  show ?case
  proof (cases "t (pre @ [c])")
    case None
    have "snd (mkdirs p (pre @ [c]) cs (t(pre @ [c] \<mapsto> Dir))) k = (t(pre @ [c] \<mapsto> Dir)) k"
      using len by (rule Cons.IH)
    then show ?thesis unfolding mkdirs_step_None [where pre = pre and c = c and t = t, OF None] using ne by simp
  next
    case (Some m)
    show ?thesis
    proof (cases m)
      case (File bs)
      with Some have f: "t (pre @ [c]) = Some (File bs)" by simp
      show ?thesis unfolding mkdirs_step_File [where pre = pre and c = c and t = t, OF f] by simp
    next
      case Dir
      with Some have d: "t (pre @ [c]) = Some Dir" by simp
      show ?thesis unfolding mkdirs_step_Dir [where pre = pre and c = c and t = t, OF d] using len by (rule Cons.IH)
    qed
  qed
qed

subsection \<open>Writing a JSONL file\<close>

lemma join_sep_empty: "join_sep xs = [] \<Longrightarrow> xs = [] \<or> xs = [[]]"
  by (induction xs rule: join_sep.induct) auto

lemma folder_resolve:
  assumes "join_sep (butlast (split_sep f)) \<noteq> []"
  shows "resolve w (join_sep (butlast (split_sep f))) = dirpart w f"
proof -
  let ?bs = "butlast (split_sep f)"
  let ?l = "last (split_sep f)"
  have bs: "?bs \<noteq> []" using assms by auto
  have "\<And>x. x \<in> set ?bs \<Longrightarrow> sep \<notin> set x"
    using split_sep_no_sep in_set_butlastD by metis
  with bs have sp: "split_sep (join_sep ?bs) = ?bs" by (rule split_join_sep)
  have "f = join_sep (?bs @ [?l])"
    by (simp add: split_sep_nonempty join_split_sep)
  also have "\<dots> = join_sep ?bs @ sep # ?l" using bs by (rule join_sep_snoc)
  finally have "startswith_sep f = startswith_sep (join_sep ?bs @ sep # ?l)" by simp
  also have "\<dots> = startswith_sep (join_sep ?bs)" using assms by (rule startswith_sep_append)
  finally show ?thesis
    by (simp add: resolve_def dirpart_def components_def sp)
qed

lemma folder_empty:
  assumes "join_sep (butlast (split_sep f)) = []"
  shows "dirpart w f = (if startswith_sep f then [] else cwd w)"
  using join_sep_empty [OF assms] by (auto simp: dirpart_def)

lemma jsonl_not_needs_dir: "\<not> needs_dir (p @ ''.jsonl'')"
proof -
  have "sep \<notin> set ''.jsonl''" by (simp add: sep_def)
  then have "last (split_sep (p @ ''.jsonl'')) = last (split_sep p) @ ''.jsonl''"
    by (simp add: split_sep_append_suffix)
  then show ?thesis by (simp add: needs_dir_def append_eq_Cons_conv)
qed

lemma open_w_can:
  "can_open u f \<Longrightarrow>
     open_w f u = (Inr (resolve u f), u\<lparr>files := (files u)(resolve u f \<mapsto> File [])\<rparr>)"
  using needs_dir_Nil
  by (auto simp: can_open_def open_w_def Let_def split: option.splits node.splits)

lemma open_w_cannot: "\<not> can_open u f \<Longrightarrow> \<exists>e. open_w f u = (Inl e, u)"
  by (auto simp: can_open_def open_w_def Let_def split: option.splits node.splits)

lemma can_open_cong: "cwd v = cwd u \<Longrightarrow> files v = files u \<Longrightarrow> can_open v f = can_open u f"
  by (simp add: can_open_def resolve_def)

lemma file_write_simps [simp]:
  "cwd (file_write k s w) = cwd w"
  "files (file_write k s w) =
     (files w)(k \<mapsto> File ((case files w k of Some (File c) \<Rightarrow> c | _ \<Rightarrow> []) @ s))"
  by (simp_all add: file_write_def)

lemma write_entries_files:
  "files w k = Some (File c0) \<Longrightarrow>
     files (snd (write_entries float_repr ds k w)) = (files w)(k \<mapsto> File (c0 @ written float_repr ds))
     \<and> cwd (snd (write_entries float_repr ds k w)) = cwd w"
proof (induction ds arbitrary: w c0)
  case Nil
  then show ?case by (simp add: fun_upd_idem)
next
  case (Cons entry rest)
  show ?case
  proof (cases "json_dumps float_repr entry")
    case (Inl e)
    with Cons.prems show ?thesis by (simp add: fun_upd_idem)
  next
    case (Inr json_line)
    let ?w = "file_write k (json_line @ [CHR 0x0A]) w"
    have "files ?w k = Some (File (c0 @ json_line @ [CHR 0x0A]))"
      using Cons.prems by simp
    from Cons.IH [OF this] Inr Cons.prems show ?thesis by (simp del: fun_upd_apply)
  qed
qed

lemma create_folder_files:
  "files (create_folder_if_not_exists p w) =
     (if p = [] then files w else snd (mkdirs p [] (resolve w p) (files w)))"
  "cwd (create_folder_if_not_exists p w) = cwd w"
  by (auto simp: create_folder_if_not_exists_def os_makedirs_def print_def
           split: prod.splits option.splits)

lemma write_dicts_files:
  "files (write_dicts_to_jsonl float_repr ds f w) =
     (let w1 = create_folder_if_not_exists (join_sep (butlast (split_sep f))) w
      in if can_open w1 f then (files w1)(resolve w f \<mapsto> File (written float_repr ds))
         else files w1) \<and>
   cwd (write_dicts_to_jsonl float_repr ds f w) = cwd w"
proof -
  let ?w1 = "create_folder_if_not_exists (join_sep (butlast (split_sep f))) w"
  have r: "resolve ?w1 f = resolve w f"
    by (simp add: resolve_def create_folder_files)
  show ?thesis
  proof (cases "can_open ?w1 f")
    case True
    let ?w2 = "?w1\<lparr>files := (files ?w1)(resolve w f \<mapsto> File [])\<rparr>"
    have o: "open_w f ?w1 = (Inr (resolve w f), ?w2)"
      using open_w_can [OF True] r by simp
    obtain res w3 where we: "write_entries float_repr ds (resolve w f) ?w2 = (res, w3)"
      by (cases "write_entries float_repr ds (resolve w f) ?w2") auto
    have "files ?w2 (resolve w f) = Some (File [])" by simp
    from write_entries_files [OF this, of float_repr ds]
    have w3: "files w3 = (files ?w1)(resolve w f \<mapsto> File (written float_repr ds))"
      "cwd w3 = cwd w"
      unfolding we by (simp_all del: fun_upd_apply add: create_folder_files)
    show ?thesis
      using True w3
      by (cases res) (simp_all add: write_dicts_to_jsonl_def Let_def o we del: fun_upd_apply)
  next
    case False
    from open_w_cannot [OF False] obtain e where "open_w f ?w1 = (Inl e, ?w1)" by blast
    with False show ?thesis
      by (simp add: write_dicts_to_jsonl_def Let_def create_folder_files)
  qed
qed

subsection \<open>Table Exporter\<close>

lemma write_dicts_idem:
  "files (write_dicts_to_jsonl float_repr ds f (write_dicts_to_jsonl float_repr ds f w))
     = files (write_dicts_to_jsonl float_repr ds f w)"
proof -
  let ?folder = "join_sep (butlast (split_sep f))"
  let ?W = "write_dicts_to_jsonl float_repr ds f"
  let ?w1 = "create_folder_if_not_exists ?folder w"
  let ?u = "?W w"
  let ?u1 = "create_folder_if_not_exists ?folder ?u"
  let ?P = "resolve w f"
  let ?c = "written float_repr ds"
  let ?t1 = "files ?w1"
  have cu: "cwd ?u = cwd w" using write_dicts_files [of float_repr ds f w] by simp
  have cw1: "cwd ?w1 = cwd w" and cu1: "cwd ?u1 = cwd w"
    using cu by (simp_all add: create_folder_files)
  have ru: "\<And>p. resolve ?u p = resolve w p" "\<And>p. resolve ?u1 p = resolve w p"
    "\<And>p. resolve ?w1 p = resolve w p"
    using cu cu1 cw1 by (simp_all add: resolve_def)
  have fu: "files ?u = (if can_open ?w1 f then ?t1(?P \<mapsto> File ?c) else ?t1)"
    using write_dicts_files [of float_repr ds f w] by (simp add: Let_def)
  have fWu: "files (?W ?u) = (if can_open ?u1 f then (files ?u1)(?P \<mapsto> File ?c) else files ?u1)"
    using write_dicts_files [of float_repr ds f ?u] by (simp add: Let_def ru)
  have t1: "?t1 = (if ?folder = [] then files w
                   else snd (mkdirs ?folder [] (resolve w ?folder) (files w)))"
    by (rule create_folder_files)
  have fu1: "files ?u1 = (if ?folder = [] then files ?u
                          else snd (mkdirs ?folder [] (resolve w ?folder) (files ?u)))"
    using create_folder_files(1) [of ?folder ?u] by (simp only: ru)
  have idem: "?folder \<noteq> [] \<Longrightarrow> snd (mkdirs ?folder [] (resolve w ?folder) ?t1) = ?t1"
    unfolding t1 by (simp only: if_False mkdirs_idem)
  show ?thesis
  proof (cases "can_open ?w1 f")
    case False
    then have u: "files ?u = ?t1" using fu by simp
    have u1: "files ?u1 = ?t1"
      unfolding fu1 u using idem by (cases "?folder = []") simp_all
    have "can_open ?u1 f = can_open ?w1 f"
      using cu1 cw1 u1 by (intro can_open_cong) simp_all
    with False fWu u1 u show ?thesis by simp
  next
    case True
    then have nd: "\<not> needs_dir f"
      and par: "?t1 (butlast ?P) = Some Dir"
      by (simp_all add: can_open_def ru)
    have P: "?P = dirpart w f @ [last (split_sep f)]"
      using nd by (rule resolve_dirpart)
    have u: "files ?u = ?t1(?P \<mapsto> File ?c)" using fu True by simp
    have u1: "files ?u1 = ?t1(?P \<mapsto> File ?c)"
    proof (cases "?folder = []")
      case True
      then show ?thesis unfolding fu1 u by simp
    next
      case False
      then have Q: "resolve w ?folder = dirpart w f" by (rule folder_resolve)
      have "mkdirs ?folder [] (dirpart w f) (?t1([] @ dirpart w f @ [last (split_sep f)] \<mapsto> File ?c))
              = (fst (mkdirs ?folder [] (dirpart w f) ?t1),
                 (snd (mkdirs ?folder [] (dirpart w f) ?t1))
                   ([] @ dirpart w f @ [last (split_sep f)] \<mapsto> File ?c))"
        by (rule mkdirs_below)
      then have "snd (mkdirs ?folder [] (dirpart w f) (?t1(?P \<mapsto> File ?c)))
                   = (snd (mkdirs ?folder [] (dirpart w f) ?t1))(?P \<mapsto> File ?c)"
        unfolding P by (simp del: fun_upd_apply)
      also have "snd (mkdirs ?folder [] (dirpart w f) ?t1) = ?t1"
        using idem [OF False] unfolding Q .
      finally show ?thesis
        unfolding fu1 u Q using False by (simp del: fun_upd_apply)
    qed
    have "butlast ?P \<noteq> ?P" unfolding P by simp
    then have "can_open ?u1 f"
      using nd par by (simp add: can_open_def ru u1)
    with fWu u1 u show ?thesis by (simp del: fun_upd_apply)
  qed
qed

text \<open>
  A second run of \<open>process_table\<close> on the same table, the cursor answering as in the
  first, leaves the whole file system as the first run left it.
\<close>

lemma process_table_twice:
  "files (snd (process_table float_repr output_dir table_name cursor
                 (snd (process_table float_repr output_dir table_name cursor w))))
     = files (snd (process_table float_repr output_dir table_name cursor w))"
  by (simp add: process_table_def write_dicts_idem split: sum.splits)

lemma map_exn_index:
  "\<forall>x \<in> set xs. i < length x \<Longrightarrow> map_exn (\<lambda>x. py_index x i) xs = Inr (map (\<lambda>x. x ! i) xs)"
  by (induction xs) (simp_all add: py_index_def)

lemma wf_ancestors:
  "wf_world w \<Longrightarrow> files w (k @ ks) \<noteq> None \<Longrightarrow> ks \<noteq> [] \<Longrightarrow> files w k = Some Dir"
proof (induction ks rule: rev_induct)
  case Nil
  then show ?case by simp
next
  case (snoc x xs)
  from snoc.prems(2) have "files w ((k @ xs) @ [x]) \<noteq> None" by simp
  with snoc.prems(1) have d: "files w (k @ xs) = Some Dir"
    unfolding wf_world_def by blast
  show ?case
  proof (cases "xs = []")
    case True
    with d show ?thesis by simp
  next
    case False
    with snoc.IH [OF snoc.prems(1)] d show ?thesis by simp
  qed
qed

lemma wf_prefixes:
  assumes "wf_world w" "files w k = Some Dir" "i \<le> length k"
  shows "files w (take i k) = Some Dir"
proof (cases "i = length k")
  case True
  with assms show ?thesis by simp
next
  case False
  with assms have "drop i k \<noteq> []" by simp
  moreover have "files w (take i k @ drop i k) \<noteq> None" using assms by simp
  ultimately show ?thesis using assms(1) wf_ancestors by blast
qed

text \<open>
  Claim C10. The schema of the table can be read and its scan returns no row; the file
  system is well formed, no ancestor of the output path is a regular file and the output
  path is not a directory. Then \<open>process_table\<close> returns normally, the output file
  exists and is empty, and every ancestor of it is a directory.
\<close>

theorem empty_table_creates_empty_file:
  assumes info: "cur_execute cursor (table_info_sql float_repr (VText table_name)) = Inr columns_info"
    and cols: "\<forall>column \<in> set columns_info. 1 < length column"
    and scan: "cur_execute cursor (select_all_sql float_repr (VText table_name)) = Inr []"
    and wf: "wf_world w"
    and anc: "\<forall>i < length (resolve w (os_path_join output_dir table_name @ ''.jsonl'')).
                \<not> is_file (files w (take i (resolve w (os_path_join output_dir table_name @ ''.jsonl''))))"
    and nodir: "files w (resolve w (os_path_join output_dir table_name @ ''.jsonl'')) \<noteq> Some Dir"
  shows "fst (process_table float_repr output_dir (VText table_name) cursor w) = Inr () \<and>
         files (snd (process_table float_repr output_dir (VText table_name) cursor w))
           (resolve w (os_path_join output_dir table_name @ ''.jsonl'')) = Some (File []) \<and>
         (\<forall>i < length (resolve w (os_path_join output_dir table_name @ ''.jsonl'')).
            files (snd (process_table float_repr output_dir (VText table_name) cursor w))
              (take i (resolve w (os_path_join output_dir table_name @ ''.jsonl''))) = Some Dir)"
proof -
  let ?f = "os_path_join output_dir table_name @ ''.jsonl''"
  let ?folder = "join_sep (butlast (split_sep ?f))"
  let ?w1 = "create_folder_if_not_exists ?folder w"
  let ?P = "resolve w ?f"
  let ?D = "dirpart w ?f"
  let ?t1 = "files ?w1"
  have nd: "\<not> needs_dir ?f" by (rule jsonl_not_needs_dir)
  have P: "?P = ?D @ [last (split_sep ?f)]" using nd by (rule resolve_dirpart)
  have lenP: "length ?P = Suc (length ?D)" unfolding P by simp
  have pt: "process_table float_repr output_dir (VText table_name) cursor w =
              (Inr (), write_dicts_to_jsonl float_repr [] ?f w)"
    using info scan map_exn_index [OF cols]
    by (simp add: process_table_def rows_list_def)
  have t1: "?t1 = (if ?folder = [] then files w
                   else snd (mkdirs ?folder [] (resolve w ?folder) (files w)))"
    by (rule create_folder_files)
  have r1: "resolve ?w1 ?f = ?P" by (simp add: resolve_def create_folder_files)
  have root: "files w [] = Some Dir" and cwdD: "files w (cwd w) = Some Dir"
    using wf by (simp_all add: wf_world_def)
  have tD: "?t1 (take i ?D) = Some Dir" if "i \<le> length ?D" for i
  proof (cases "?folder = []")
    case True
    then have "?D = (if startswith_sep ?f then [] else cwd w)" by (rule folder_empty)
    with root cwdD have "files w ?D = Some Dir" by simp
    from wf_prefixes [OF wf this that] True show ?thesis unfolding t1 by simp
  next
    case False
    then have Q: "resolve w ?folder = ?D" by (rule folder_resolve)
    show ?thesis
    proof (cases "i = 0")
      case True
      have "files w [] \<noteq> None" using root by simp
      then have "snd (mkdirs ?folder [] ?D (files w)) [] = files w []" by (rule mkdirs_keeps)
      with True False root show ?thesis unfolding t1 Q by simp
    next
      case positive: False
      have "\<not> is_file (files w ([] @ take j ?D))" if "0 < j" "j \<le> length ?D" for j
      proof -
        from that have "j < length ?P" using lenP by simp
        moreover have "take j ?P = take j ?D" using that unfolding P by simp
        ultimately show ?thesis using anc by (metis append_Nil)
      qed
      from mkdirs_makes [of ?D "files w" "[]" ?folder, OF this]
      have "snd (mkdirs ?folder [] ?D (files w)) ([] @ take i ?D) = Some Dir"
        using positive that by blast
      with False show ?thesis unfolding t1 Q by simp
    qed
  qed
  have tP: "?t1 ?P = files w ?P"
  proof (cases "?folder = []")
    case True
    then show ?thesis unfolding t1 by simp
  next
    case False
    then have Q: "resolve w ?folder = ?D" by (rule folder_resolve)
    have "length ([]::string list) + length ?D < length ?P" using lenP by simp
    then have "snd (mkdirs ?folder [] ?D (files w)) ?P = files w ?P" by (rule mkdirs_longer)
    with False show ?thesis unfolding t1 Q by simp
  qed
  have bl: "butlast ?P = ?D" unfolding P by simp
  have "?t1 ?D = Some Dir" using tD [of "length ?D"] by simp
  then have "can_open ?w1 ?f"
    using nd tP nodir by (simp add: can_open_def r1 bl)
  then have files: "files (write_dicts_to_jsonl float_repr [] ?f w) = ?t1(?P \<mapsto> File [])"
    using write_dicts_files [of float_repr "[]" ?f w] by (simp add: Let_def del: fun_upd_apply)
  have above: "(?t1(?P \<mapsto> File [])) (take i ?P) = Some Dir" if "i < length ?P" for i
  proof -
    from that have i: "i \<le> length ?D" using lenP by simp
    then have "take i ?P = take i ?D" unfolding P by simp
    moreover have "take i ?P \<noteq> ?P"
    proof
      assume "take i ?P = ?P"
      then have "length (take i ?P) = length ?P" by (rule arg_cong)
      with that show False by simp
    qed
    ultimately show ?thesis using tD [OF i] by simp
  qed
  have "files (write_dicts_to_jsonl float_repr [] ?f w) ?P = Some (File [])"
    unfolding files by simp
  moreover have "\<forall>i < length ?P.
      files (write_dicts_to_jsonl float_repr [] ?f w) (take i ?P) = Some Dir"
    unfolding files using above by blast
  ultimately show ?thesis
    unfolding pt by (simp only: fst_conv snd_conv simp_thms)
qed

lemma example_empty_table_path:
  "resolve example_world (os_path_join ''out'' ''sqlite_sequence'' @ ''.jsonl'')
     = [''home'', ''out'', ''sqlite_sequence.jsonl'']"
  by code_simp

theorem empty_table_creates_empty_file_witness:
  "files (snd (process_table no_floats ''out'' (VText ''sqlite_sequence'') example_cursor example_world))
     [''home'', ''out'', ''sqlite_sequence.jsonl''] = Some (File []) \<and>
   files (snd (process_table no_floats ''out'' (VText ''sqlite_sequence'') example_cursor example_world))
     [''home'', ''out''] = Some Dir"
proof -
  have info: "cur_execute example_cursor (table_info_sql no_floats (VText ''sqlite_sequence''))
                = Inr [[VInt 0, VText ''name''], [VInt 1, VText ''seq'']]"
    by code_simp
  have cols: "\<forall>column \<in> set [[VInt 0, VText ''name''], [VInt 1, VText ''seq'']]. 1 < length column"
    by simp
  have scan: "cur_execute example_cursor (select_all_sql no_floats (VText ''sqlite_sequence'')) = Inr []"
    by code_simp
  have anc: "\<forall>i < length (resolve example_world (os_path_join ''out'' ''sqlite_sequence'' @ ''.jsonl'')).
                \<not> is_file (files example_world
                     (take i (resolve example_world (os_path_join ''out'' ''sqlite_sequence'' @ ''.jsonl''))))"
    unfolding example_empty_table_path
    by (auto simp: example_world_def is_file_def less_Suc_eq)
  have nodir: "files example_world
                 (resolve example_world (os_path_join ''out'' ''sqlite_sequence'' @ ''.jsonl''))
               \<noteq> Some Dir"
    unfolding example_empty_table_path by (simp add: example_world_def)
  note th = empty_table_creates_empty_file [OF info cols scan example_wf anc nodir,
      unfolded example_empty_table_path]
  from th have made: "files (snd (process_table no_floats ''out'' (VText ''sqlite_sequence'')
                              example_cursor example_world))
                  [''home'', ''out'', ''sqlite_sequence.jsonl''] = Some (File [])"
    and dirs: "\<forall>i < length [''home'', ''out'', ''sqlite_sequence.jsonl''].
                 files (snd (process_table no_floats ''out'' (VText ''sqlite_sequence'')
                               example_cursor example_world))
                   (take i [''home'', ''out'', ''sqlite_sequence.jsonl'']) = Some Dir"
    by blast+
  from dirs [rule_format, of "Suc (Suc 0)"] made show ?thesis by simp
qed

subsection \<open>Replacing the output file\<close>

lemma written_lines:
  "map_exn (json_dumps float_repr) ds = Inr lines \<Longrightarrow>
     written float_repr ds = concat (map (\<lambda>l. l @ [CHR 0x0A]) lines)"
proof (induction ds arbitrary: lines)
  case Nil
  then show ?case by simp
next
  case (Cons entry rest)
  then show ?case
    by (auto split: sum.splits)
qed

lemma map_exn_all:
  "(\<And>x. x \<in> set xs \<Longrightarrow> \<exists>y. f x = Inr y) \<Longrightarrow> \<exists>ys. map_exn f xs = Inr ys"
proof (induction xs)
  case Nil
  show ?case by simp
next
  case (Cons x xs)
  from Cons.prems [of x] obtain y where "f x = Inr y" by auto
  moreover from Cons.IH Cons.prems obtain ys where "map_exn f xs = Inr ys" by auto
  ultimately show ?case by simp
qed

lemma json_items_ok:
  "(\<And>k v. (k, v) \<in> set d \<Longrightarrow> \<not> is_blob k \<and> \<not> is_blob v) \<Longrightarrow>
     \<exists>items. json_items float_repr d = Inr items"
proof (induction d)
  case Nil
  show ?case by simp
next
  case (Cons kv d)
  obtain k v where kv: "kv = (k, v)" by (cases kv)
  from Cons.prems [of k v] kv have nb: "\<not> is_blob k" "\<not> is_blob v" by simp_all
  from nb(1) obtain ks where ks: "json_key float_repr k = Inr ks" by (cases k) simp_all
  from nb(2) obtain vs where vs: "json_value float_repr v = Inr vs" by (cases v) simp_all
  from Cons.IH Cons.prems obtain rest where "json_items float_repr d = Inr rest" by auto
  with kv ks vs show ?case by simp
qed

lemma dict_set_entries:
  "(k', v') \<in> set (dict_set k v d) \<Longrightarrow> (k', v') \<in> set d \<or> (k' = k \<and> v' = v)"
  by (induction d) (auto split: if_splits)

lemma dict_of_entries_aux:
  "(k, v) \<in> set (foldl (\<lambda>d (k, v). dict_set k v d) d0 kvs) \<Longrightarrow>
     (k, v) \<in> set d0 \<or> (k, v) \<in> set kvs"
proof (induction kvs arbitrary: d0)
  case Nil
  then show ?case by simp
next
  case (Cons kv kvs)
  obtain a b where kv: "kv = (a, b)" by (cases kv)
  from Cons.IH [of "dict_set a b d0"] Cons.prems kv
  have "(k, v) \<in> set (dict_set a b d0) \<or> (k, v) \<in> set kvs" by simp
  then show ?case using dict_set_entries [of k v a b d0] kv by auto
qed

lemma dict_of_entries: "(k, v) \<in> set (dict_of kvs) \<Longrightarrow> (k, v) \<in> set kvs"
  unfolding dict_of_def using dict_of_entries_aux [of k v "[]" kvs] by simp

lemma to_string_not_blob: "\<not> is_blob (to_string v)"
  by (cases v) simp_all

lemma row_dict_serializable:
  assumes "\<forall>c \<in> set column_names. \<not> is_blob c"
  shows "\<exists>json_line. json_dumps float_repr (row_dict column_names row) = Inr json_line"
proof -
  have "\<not> is_blob k \<and> \<not> is_blob v" if "(k, v) \<in> set (row_dict column_names row)" for k v
  proof -
    from that have "(k, v) \<in> set (map (\<lambda>(column_name, v). (column_name, to_string v))
                                      (zip column_names row))"
      unfolding row_dict_def by (rule dict_of_entries)
    then obtain c x where "(c, x) \<in> set (zip column_names row)" "k = c" "v = to_string x"
      by auto
    then show ?thesis
      using assms to_string_not_blob by (auto dest: set_zip_leftD)
  qed
  from json_items_ok [of "row_dict column_names row" float_repr, OF this]
  show ?thesis by (auto simp: json_dumps_def)
qed

lemma rows_serializable:
  assumes "\<forall>c \<in> set column_names. \<not> is_blob c"
  shows "\<exists>lines. map_exn (json_dumps float_repr) (rows_list column_names rows) = Inr lines"
  by (rule map_exn_all) (auto simp: rows_list_def row_dict_serializable [OF assms])

lemma can_open_output:
  assumes wf: "wf_world w"
    and anc: "\<forall>i < length (resolve w (p @ ''.jsonl'')).
                \<not> is_file (files w (take i (resolve w (p @ ''.jsonl''))))"
    and nodir: "files w (resolve w (p @ ''.jsonl'')) \<noteq> Some Dir"
  shows "can_open (create_folder_if_not_exists (join_sep (butlast (split_sep (p @ ''.jsonl'')))) w)
           (p @ ''.jsonl'')"
proof -
  let ?f = "p @ ''.jsonl''"
  let ?folder = "join_sep (butlast (split_sep ?f))"
  let ?w1 = "create_folder_if_not_exists ?folder w"
  let ?P = "resolve w ?f"
  let ?D = "dirpart w ?f"
  let ?t1 = "files ?w1"
  have nd: "\<not> needs_dir ?f" by (rule jsonl_not_needs_dir)
  have P: "?P = ?D @ [last (split_sep ?f)]" using nd by (rule resolve_dirpart)
  have lenP: "length ?P = Suc (length ?D)" unfolding P by simp
  have t1: "?t1 = (if ?folder = [] then files w
                   else snd (mkdirs ?folder [] (resolve w ?folder) (files w)))"
    by (rule create_folder_files)
  have r1: "resolve ?w1 ?f = ?P" by (simp add: resolve_def create_folder_files)
  have root: "files w [] = Some Dir" and cwdD: "files w (cwd w) = Some Dir"
    using wf by (simp_all add: wf_world_def)
  have tD: "?t1 ?D = Some Dir"
  proof (cases "?folder = []")
    case True
    then have "?D = (if startswith_sep ?f then [] else cwd w)" by (rule folder_empty)
    with True root cwdD show ?thesis unfolding t1 by simp
  next
    case False
    then have Q: "resolve w ?folder = ?D" by (rule folder_resolve)
    show ?thesis
    proof (cases "?D = []")
      case True
      with False root show ?thesis unfolding t1 Q by simp
    next
      case nonempty: False
      have "\<not> is_file (files w ([] @ take j ?D))" if "0 < j" "j \<le> length ?D" for j
      proof -
        from that have "j < length ?P" using lenP by simp
        moreover have "take j ?P = take j ?D" using that unfolding P by simp
        ultimately show ?thesis using anc by (metis append_Nil)
      qed
      from mkdirs_makes [of ?D "files w" "[]" ?folder, OF this]
      have "snd (mkdirs ?folder [] ?D (files w)) ([] @ take (length ?D) ?D) = Some Dir"
        using nonempty by blast
      with False show ?thesis unfolding t1 Q by simp
    qed
  qed
  have tP: "?t1 ?P = files w ?P"
  proof (cases "?folder = []")
    case True
    then show ?thesis unfolding t1 by simp
  next
    case False
    then have Q: "resolve w ?folder = ?D" by (rule folder_resolve)
    have "length ([]::string list) + length ?D < length ?P" using lenP by simp
    then have "snd (mkdirs ?folder [] ?D (files w)) ?P = files w ?P" by (rule mkdirs_longer)
    with False show ?thesis unfolding t1 Q by simp
  qed
  have bl: "butlast ?P = ?D" unfolding P by simp
  show ?thesis
    using nd tD tP nodir by (simp add: can_open_def r1 bl)
qed

text \<open>
  Claim C5. The schema of the table and its rows can be read, the column names are not
  binary, and the output file can be created (a well-formed file system, no regular file
  among the ancestors of the output path, the path not a directory). Whatever the output
  path held before, a file of any content or nothing, after one run of \<open>process_table\<close>
  it holds exactly the lines of this run, one for each row, and after a second run it
  holds the same: the file is replaced, never appended to, and the whole file system after
  two runs is the one after a single run.
\<close>

theorem process_table_replaces_output:
  assumes info: "cur_execute cursor (table_info_sql float_repr (VText table_name)) = Inr columns_info"
    and cols: "\<forall>column \<in> set columns_info. 1 < length column \<and> \<not> is_blob (column ! 1)"
    and scan: "cur_execute cursor (select_all_sql float_repr (VText table_name)) = Inr rows"
    and wf: "wf_world w"
    and anc: "\<forall>i < length (resolve w (os_path_join output_dir table_name @ ''.jsonl'')).
                \<not> is_file (files w (take i (resolve w (os_path_join output_dir table_name @ ''.jsonl''))))"
    and nodir: "files w (resolve w (os_path_join output_dir table_name @ ''.jsonl'')) \<noteq> Some Dir"
  shows "files (snd (process_table float_repr output_dir (VText table_name) cursor
                       (snd (process_table float_repr output_dir (VText table_name) cursor w))))
           = files (snd (process_table float_repr output_dir (VText table_name) cursor w)) \<and>
         (\<exists>lines.
            map_exn (json_dumps float_repr)
              (rows_list (map (\<lambda>column. column ! 1) columns_info) rows) = Inr lines \<and>
            files (snd (process_table float_repr output_dir (VText table_name) cursor w))
              (resolve w (os_path_join output_dir table_name @ ''.jsonl''))
              = Some (File (concat (map (\<lambda>l. l @ [CHR 0x0A]) lines))) \<and>
            files (snd (process_table float_repr output_dir (VText table_name) cursor
                          (snd (process_table float_repr output_dir (VText table_name) cursor w))))
              (resolve w (os_path_join output_dir table_name @ ''.jsonl''))
              = Some (File (concat (map (\<lambda>l. l @ [CHR 0x0A]) lines))))"
proof -
  let ?f = "os_path_join output_dir table_name @ ''.jsonl''"
  let ?names = "map (\<lambda>column. column ! 1) columns_info"
  let ?ds = "rows_list ?names rows"
  let ?pt = "process_table float_repr output_dir (VText table_name) cursor"
  have twice: "files (snd (?pt (snd (?pt w)))) = files (snd (?pt w))"
    by (rule process_table_twice)
  have "\<forall>column \<in> set columns_info. 1 < length column" using cols by blast
  from map_exn_index [OF this]
  have names: "map_exn (\<lambda>column. py_index column 1) columns_info = Inr ?names" .
  have pt: "?pt w = (Inr (), write_dicts_to_jsonl float_repr ?ds ?f w)"
    using info scan names by (simp add: process_table_def)
  have "\<forall>c \<in> set ?names. \<not> is_blob c" using cols by simp
  from rows_serializable [OF this, of float_repr rows]
  obtain lines where lines: "map_exn (json_dumps float_repr) ?ds = Inr lines" by blast
  have "can_open (create_folder_if_not_exists (join_sep (butlast (split_sep ?f))) w) ?f"
    using wf anc nodir by (rule can_open_output)
  then have "files (write_dicts_to_jsonl float_repr ?ds ?f w) (resolve w ?f)
               = Some (File (written float_repr ?ds))"
    using write_dicts_files [of float_repr ?ds ?f w] by (simp add: Let_def)
  then have one: "files (snd (?pt w)) (resolve w ?f)
                    = Some (File (concat (map (\<lambda>l. l @ [CHR 0x0A]) lines)))"
    unfolding pt using written_lines [OF lines] by simp
  then have two: "files (snd (?pt (snd (?pt w)))) (resolve w ?f)
                    = Some (File (concat (map (\<lambda>l. l @ [CHR 0x0A]) lines)))"
    unfolding twice .
  from twice lines one two show ?thesis by blast
qed

lemma stale_wf: "wf_world stale_world"
  by (auto simp: wf_world_def stale_world_def append_eq_Cons_conv split: if_splits)

lemma stale_output_path:
  "resolve stale_world (os_path_join ''out'' ''users'' @ ''.jsonl'') = [''home'', ''out'', ''users.jsonl'']"
  by code_simp

lemma example_users_lines:
  "map_exn (json_dumps no_floats)
     (rows_list (map (\<lambda>column. column ! 1) [[VInt 0, VText ''id''], [VInt 1, VText ''name'']])
        [[VInt 1, VText ''ada'']])
   = Inr [''{'' @ [dquote] @ ''id'' @ [dquote] @ '': 1, '' @ [dquote] @ ''name'' @ [dquote]
          @ '': '' @ [dquote] @ ''ada'' @ [dquote] @ ''}'']"
  by code_simp

theorem process_table_replaces_output_witness:
  "files stale_world [''home'', ''out'', ''users.jsonl''] = Some (File ''an old line that is no JSON'') \<and>
   files (snd (process_table no_floats ''out'' (VText ''users'') example_cursor stale_world))
     [''home'', ''out'', ''users.jsonl'']
   = Some (File (''{'' @ [dquote] @ ''id'' @ [dquote] @ '': 1, '' @ [dquote] @ ''name'' @ [dquote]
                  @ '': '' @ [dquote] @ ''ada'' @ [dquote] @ ''}'' @ [CHR 0x0A])) \<and>
   files (snd (process_table no_floats ''out'' (VText ''users'') example_cursor
                 (snd (process_table no_floats ''out'' (VText ''users'') example_cursor stale_world))))
     [''home'', ''out'', ''users.jsonl'']
   = Some (File (''{'' @ [dquote] @ ''id'' @ [dquote] @ '': 1, '' @ [dquote] @ ''name'' @ [dquote]
                  @ '': '' @ [dquote] @ ''ada'' @ [dquote] @ ''}'' @ [CHR 0x0A]))"
proof -
  have info: "cur_execute example_cursor (table_info_sql no_floats (VText ''users''))
                = Inr [[VInt 0, VText ''id''], [VInt 1, VText ''name'']]"
    by code_simp
  have cols: "\<forall>column \<in> set [[VInt 0, VText ''id''], [VInt 1, VText ''name'']].
                1 < length column \<and> \<not> is_blob (column ! 1)"
    by simp
  have scan: "cur_execute example_cursor (select_all_sql no_floats (VText ''users''))
                = Inr [[VInt 1, VText ''ada'']]"
    by code_simp
  have anc: "\<forall>i < length (resolve stale_world (os_path_join ''out'' ''users'' @ ''.jsonl'')).
                \<not> is_file (files stale_world
                     (take i (resolve stale_world (os_path_join ''out'' ''users'' @ ''.jsonl''))))"
    unfolding stale_output_path
    by (auto simp: stale_world_def is_file_def less_Suc_eq)
  have nodir: "files stale_world (resolve stale_world (os_path_join ''out'' ''users'' @ ''.jsonl''))
               \<noteq> Some Dir"
    unfolding stale_output_path by (simp add: stale_world_def)
  have old: "files stale_world [''home'', ''out'', ''users.jsonl'']
               = Some (File ''an old line that is no JSON'')"
    by (simp add: stale_world_def)
  note th = process_table_replaces_output [OF info cols scan stale_wf anc nodir,
      unfolded stale_output_path example_users_lines]
  from th old show ?thesis by simp
qed

end
